theory Spec2Isabelle
  imports Complex_Main "HOL-Library.AList" "HOL-Library.Sublist"
begin

section \<open>Domain exceptions\<close>

text \<open>
  The exception classes of \<^verbatim>\<open>domain/exceptions.py\<close>, together with the two built-in
  exceptions that reach callers unwrapped: \<^verbatim>\<open>OSError\<close> (raised by the operating-system
  calls that the source does not guard) and \<^verbatim>\<open>OverflowError\<close> (raised by date
  arithmetic that leaves the range of \<^verbatim>\<open>datetime.date\<close>).
\<close>

datatype error =
    ServerAlreadyRunningError
  | ServerNotRunningError
  | ResourceNotFoundError
  | ArchiveCreationError
  | BackupStorageError
  | OSError
  | OverflowError

section \<open>Calendar dates\<close>

text \<open>
  \<^verbatim>\<open>datetime.date\<close>: a year from 1 to 9999, a month and a day of the proleptic
  Gregorian calendar. The functions below follow the reference implementation of
  the \<^verbatim>\<open>datetime\<close> module (\<^verbatim>\<open>_is_leap\<close>, \<^verbatim>\<open>_days_in_month\<close>, \<^verbatim>\<open>_ymd2ord\<close>,
  \<^verbatim>\<open>_ord2ymd\<close>).
\<close>

record date =
  year :: nat
  month :: nat
  day :: nat

definition is_leap :: "nat \<Rightarrow> bool" where
  "is_leap y = (y mod 4 = 0 \<and> (y mod 100 \<noteq> 0 \<or> y mod 400 = 0))"

definition days_in_month :: "nat \<Rightarrow> nat \<Rightarrow> nat" where
  "days_in_month y m =
     (if m = 2 \<and> is_leap y then 29
      else [0, 31, 28, 31, 30, 31, 30, 31, 31, 30, 31, 30, 31] ! m)"

definition days_before_month :: "nat \<Rightarrow> nat \<Rightarrow> nat" where
  "days_before_month y m =
     [0, 0, 31, 59, 90, 120, 151, 181, 212, 243, 273, 304, 334] ! m
       + (if m > 2 \<and> is_leap y then 1 else 0)"

definition days_before_year :: "nat \<Rightarrow> nat" where
  "days_before_year y = (y - 1) * 365 + (y - 1) div 4 - (y - 1) div 100 + (y - 1) div 400"

definition valid_date :: "date \<Rightarrow> bool" where
  "valid_date d =
     (1 \<le> year d \<and> year d \<le> 9999 \<and> 1 \<le> month d \<and> month d \<le> 12
      \<and> 1 \<le> day d \<and> day d \<le> days_in_month (year d) (month d))"

definition toordinal :: "date \<Rightarrow> int" where
  "toordinal d = int (days_before_year (year d) + days_before_month (year d) (month d) + day d)"

definition max_ordinal :: int where
  "max_ordinal = 3652059"

definition fromordinal :: "int \<Rightarrow> date" where
  "fromordinal ordinal =
     (let n = nat (ordinal - 1);
          n400 = n div 146097; n = n mod 146097;
          n100 = n div 36524; n = n mod 36524;
          n4 = n div 1461; n = n mod 1461;
          n1 = n div 365; n = n mod 365;
          y = n400 * 400 + 1 + n100 * 100 + n4 * 4 + n1
      in if n1 = 4 \<or> n100 = 4 then \<lparr>year = y - 1, month = 12, day = 31\<rparr>
         else
           let leapyear = (n1 = 3 \<and> (n4 \<noteq> 24 \<or> n100 = 3));
               m = (n + 50) div 32;
               preceding = [0, 0, 31, 59, 90, 120, 151, 181, 212, 243, 273, 304, 334] ! m
                             + (if m > 2 \<and> leapyear then 1 else 0)
           in if preceding > n
              then \<lparr>year = y, month = m - 1,
                    day = n - (preceding
                                - ([0, 31, 28, 31, 30, 31, 30, 31, 31, 30, 31, 30, 31] ! (m - 1)
                                    + (if m - 1 = 2 \<and> leapyear then 1 else 0))) + 1\<rparr>
              else \<lparr>year = y, month = m, day = n - preceding + 1\<rparr>)"

text \<open>
  \<^verbatim>\<open>d - timedelta(days=n)\<close>: \<^verbatim>\<open>timedelta\<close> refuses more than 999999999 days, and the
  subtraction raises \<^verbatim>\<open>OverflowError\<close> when the result is not a date.
\<close>

definition date_sub_days :: "date \<Rightarrow> int \<Rightarrow> error + date" where
  "date_sub_days d n =
     (if \<bar>n\<bar> > 999999999 then Inl OverflowError
      else let ordinal = toordinal d - n
           in if 0 < ordinal \<and> ordinal \<le> max_ordinal then Inr (fromordinal ordinal)
              else Inl OverflowError)"

text \<open>The order of dates: year, then month, then day.\<close>

definition date_less :: "date \<Rightarrow> date \<Rightarrow> bool" where
  "date_less a b =
     (year a < year b
      \<or> (year a = year b \<and> (month a < month b \<or> (month a = month b \<and> day a < day b))))"

text \<open>
  \<^verbatim>\<open>d.strftime("%Y-%m-%d")\<close>, with the year padded to four digits, as it is on
  Windows and macOS and, from 1000 on, on every platform (the C library of Linux
  does not pad the years below 1000).
\<close>

definition digit_char :: "nat \<Rightarrow> char" where
  "digit_char k = ''0123456789'' ! (k mod 10)"

definition strftime :: "date \<Rightarrow> string" where
  "strftime d =
     [digit_char (year d div 1000), digit_char (year d div 100), digit_char (year d div 10),
      digit_char (year d), CHR ''-'',
      digit_char (month d div 10), digit_char (month d), CHR ''-'',
      digit_char (day d div 10), digit_char (day d)]"

text \<open>
  A name of the filesystem is a string of bytes; pathlib hands it to the program
  decoded (\<^verbatim>\<open>os.fsdecode\<close>: UTF-8, a byte that is not part of a well-formed sequence
  becoming the lone surrogate \<open>0xDC00 + byte\<close>). \<open>utf8_char b bs\<close> is the code point
  that the byte \<open>b\<close> begins, with the number of bytes of \<open>bs\<close> that belong to it.
\<close>

definition cont :: "nat \<Rightarrow> bool" where
  "cont c = (128 \<le> c \<and> c \<le> 191)"

definition utf8_char :: "nat \<Rightarrow> nat list \<Rightarrow> (nat \<times> nat) option" where
  "utf8_char b bs =
     (if b < 128 then Some (b, 0)
      else if 194 \<le> b \<and> b \<le> 223 then
        (case bs of
           c1 # rest \<Rightarrow> if cont c1 then Some ((b - 192) * 64 + (c1 - 128), 1) else None
         | _ \<Rightarrow> None)
      else if 224 \<le> b \<and> b \<le> 239 then
        (case bs of
           c1 # c2 # rest \<Rightarrow>
             if (if b = 224 then 160 else 128) \<le> c1 \<and> c1 \<le> (if b = 237 then 159 else 191)
                \<and> cont c2
             then Some (((b - 224) * 64 + (c1 - 128)) * 64 + (c2 - 128), 2)
             else None
         | _ \<Rightarrow> None)
      else if 240 \<le> b \<and> b \<le> 244 then
        (case bs of
           c1 # c2 # c3 # rest \<Rightarrow>
             if (if b = 240 then 144 else 128) \<le> c1 \<and> c1 \<le> (if b = 244 then 143 else 191)
                \<and> cont c2 \<and> cont c3
             then Some ((((b - 240) * 64 + (c1 - 128)) * 64 + (c2 - 128)) * 64 + (c3 - 128), 3)
             else None
         | _ \<Rightarrow> None)
      else None)"

fun decode :: "nat list \<Rightarrow> nat list" where
  "decode [] = []"
| "decode (b # bs) =
     (case utf8_char b bs of
        Some (c, n) \<Rightarrow> c # decode (drop n bs)
      | None \<Rightarrow> (56320 + b) # decode bs)"

declare decode.simps(2) [simp del]

definition fsdecode :: "string \<Rightarrow> nat list" where
  "fsdecode name = decode (map of_char name)"

text \<open>
  The decimal digits of Unicode 14.0, the character database of CPython 3.11: every
  code point of the list is a digit zero and the nine code points after it are the
  digits one to nine of the same script. These are the characters that \<^verbatim>\<open>\d\<close> matches
  in a pattern over \<^verbatim>\<open>str\<close> and that \<^verbatim>\<open>int\<close> converts.
\<close>

definition decimal_zeros :: "nat list" where
  "decimal_zeros =
     [48, 1632, 1776, 1984, 2406, 2534, 2662, 2790, 2918, 3046, 3174, 3302, 3430, 3558,
      3664, 3792, 3872, 4160, 4240, 6112, 6160, 6470, 6608, 6784, 6800, 6992, 7088, 7232,
      7248, 42528, 43216, 43264, 43472, 43504, 43600, 44016, 65296, 66720, 68912, 69734,
      69872, 69942, 70096, 70384, 70736, 70864, 71248, 71360, 71472, 71904, 72016, 72784,
      73040, 73120, 92768, 92864, 93008, 120782, 120792, 120802, 120812, 120822, 123200,
      123632, 125264, 130032]"

definition digit_of :: "nat \<Rightarrow> nat option" where
  "digit_of c =
     (case find (\<lambda>z. z \<le> c \<and> c < z + 10) decimal_zeros of
        Some z \<Rightarrow> Some (c - z)
      | None \<Rightarrow> None)"

text \<open>
  \<^verbatim>\<open>datetime.strptime(name, "%Y-%m-%d").date()\<close>, \<open>None\<close> for \<^verbatim>\<open>ValueError\<close>. The
  format is matched as the regular expression
  \<^verbatim>\<open>(\d\d\d\d)-(1[0-2]|0[1-9]|[1-9])-(3[0-1]|[1-2]\d|0[1-9]|[1-9]| [1-9])\<close>
  from the start of the name, the first alternative that lets the match go on being
  taken; text left after the match, the year 0 and a day that the month does not have
  are errors. A range such as \<^verbatim>\<open>[1-9]\<close> holds ASCII digits only (the code points 48
  to 57; 45 is the dash and 32 the space), \<^verbatim>\<open>\d\<close> any decimal digit.
\<close>

fun parse_year :: "nat list \<Rightarrow> (nat \<times> nat list) option" where
  "parse_year (a # b # c # d # rest) =
     (case (digit_of a, digit_of b, digit_of c, digit_of d) of
        (Some a', Some b', Some c', Some d') \<Rightarrow>
          Some (1000 * a' + 100 * b' + 10 * c' + d', rest)
      | _ \<Rightarrow> None)"
| "parse_year _ = None"

fun parse_dash :: "nat list \<Rightarrow> nat list option" where
  "parse_dash (c # rest) = (if c = 45 then Some rest else None)"
| "parse_dash [] = None"

text \<open>
  The month is followed by a dash in the format, so an alternative counts only when a
  dash comes after it.
\<close>

definition parse_month :: "nat list \<Rightarrow> (nat \<times> nat list) option" where
  "parse_month s =
     (case s of
        a # b # rest \<Rightarrow>
          if a = 49 \<and> 48 \<le> b \<and> b \<le> 50 \<and> parse_dash rest \<noteq> None
          then Some (10 + (b - 48), rest)
          else if a = 48 \<and> 49 \<le> b \<and> b \<le> 57 \<and> parse_dash rest \<noteq> None
          then Some (b - 48, rest)
          else if 49 \<le> a \<and> a \<le> 57 \<and> parse_dash (b # rest) \<noteq> None
          then Some (a - 48, b # rest)
          else None
      | _ \<Rightarrow> None)"

text \<open>The day ends the format: the first alternative that matches is taken.\<close>

definition parse_day :: "nat list \<Rightarrow> (nat \<times> nat list) option" where
  "parse_day s =
     (case s of
        a # b # rest \<Rightarrow>
          if a = 51 \<and> 48 \<le> b \<and> b \<le> 49 then Some (30 + (b - 48), rest)
          else
            (case (if 49 \<le> a \<and> a \<le> 50 then digit_of b else None) of
               Some d \<Rightarrow> Some (10 * (a - 48) + d, rest)
             | None \<Rightarrow>
                 if a = 48 \<and> 49 \<le> b \<and> b \<le> 57 then Some (b - 48, rest)
                 else if 49 \<le> a \<and> a \<le> 57 then Some (a - 48, b # rest)
                 else if a = 32 \<and> 49 \<le> b \<and> b \<le> 57 then Some (b - 48, rest)
                 else None)
      | [a] \<Rightarrow> if 49 \<le> a \<and> a \<le> 57 then Some (a - 48, []) else None
      | [] \<Rightarrow> None)"

definition strptime :: "string \<Rightarrow> date option" where
  "strptime name =
     (case parse_year (fsdecode name) of
        None \<Rightarrow> None
      | Some (y, s1) \<Rightarrow>
          (case parse_dash s1 of
             None \<Rightarrow> None
           | Some s2 \<Rightarrow>
               (case parse_month s2 of
                  None \<Rightarrow> None
                | Some (m, s3) \<Rightarrow>
                    (case parse_dash s3 of
                       None \<Rightarrow> None
                     | Some s4 \<Rightarrow>
                         (case parse_day s4 of
                            None \<Rightarrow> None
                          | Some (d, s5) \<Rightarrow>
                              if s5 \<noteq> [] then None
                              else if valid_date \<lparr>year = y, month = m, day = d\<rparr>
                              then Some \<lparr>year = y, month = m, day = d\<rparr>
                              else None)))))"

section \<open>The filesystem\<close>

text \<open>
  A path is the list of its components below the filesystem root. The filesystem is a
  tree: a node is a regular file or a directory holding named entries in the order in
  which the directory enumerates them; the entry of a name is the first one that
  carries it. The model has one device, no symbolic links, no permissions and names
  of any length, so the only failures of a filesystem call are the structural ones (a
  missing parent, an existing target, a directory moved into itself). A component
  \<^verbatim>\<open>..\<close> is not resolved and a name with a null byte is not refused: paths with
  either are outside the model.
\<close>

type_synonym path = "string list"

datatype node = File | Dir "(string \<times> node) list"

datatype errno = ENOENT | EEXIST | ENOTDIR | EINVAL | EBUSY

fun lookup :: "node \<Rightarrow> path \<Rightarrow> node option" where
  "lookup n [] = Some n"
| "lookup File (x # xs) = None"
| "lookup (Dir es) (x # xs) = (case map_of es x of None \<Rightarrow> None | Some c \<Rightarrow> lookup c xs)"

text \<open>\<^verbatim>\<open>Path.exists()\<close> and \<^verbatim>\<open>Path.is_dir()\<close>.\<close>

definition exists :: "node \<Rightarrow> path \<Rightarrow> bool" where
  "exists fs p = (lookup fs p \<noteq> None)"

definition is_dir :: "node \<Rightarrow> path \<Rightarrow> bool" where
  "is_dir fs p = (case lookup fs p of Some (Dir es) \<Rightarrow> True | _ \<Rightarrow> False)"

text \<open>
  \<^verbatim>\<open>path / name\<close> for a string: pathlib splits the name at the separator, drops the
  empty components and the components \<^verbatim>\<open>.\<close>, and keeps \<^verbatim>\<open>..\<close>; a name that begins
  with the separator is absolute and replaces the path.
\<close>

fun split_sep :: "string \<Rightarrow> string list" where
  "split_sep [] = [[]]"
| "split_sep (c # cs) =
     (if c = CHR ''/'' then [] # split_sep cs
      else (case split_sep cs of w # ws \<Rightarrow> (c # w) # ws | [] \<Rightarrow> [[c]]))"

definition components :: "string \<Rightarrow> path" where
  "components name = filter (\<lambda>w. w \<noteq> [] \<and> w \<noteq> ''.'') (split_sep name)"

definition joinpath :: "path \<Rightarrow> string \<Rightarrow> path" where
  "joinpath p name =
     (case name of
        c # cs \<Rightarrow> if c = CHR ''/'' then components name else p @ components name
      | [] \<Rightarrow> p)"

text \<open>The names that the model covers: no component \<^verbatim>\<open>..\<close> and no null byte.\<close>

definition plain_name :: "string \<Rightarrow> bool" where
  "plain_name name = (CHR 0x00 \<notin> set name \<and> ''..'' \<notin> set (components name))"

text \<open>
  The two updates of the tree. \<open>put fs p v\<close> binds the last component of \<open>p\<close> to \<open>v\<close>
  in the directory that holds it (a new entry goes to the end of the directory);
  \<open>del fs p\<close> removes the entry of \<open>p\<close>. Both leave the tree as it is where the
  directory that should hold the entry is missing.
\<close>

fun put :: "node \<Rightarrow> path \<Rightarrow> node \<Rightarrow> node" where
  "put n [] v = n"
| "put File (x # xs) v = File"
| "put (Dir es) [x] v = Dir (AList.update x v es)"
| "put (Dir es) (x # y # ys) v =
     (case map_of es x of
        None \<Rightarrow> Dir es
      | Some c \<Rightarrow> Dir (AList.update x (put c (y # ys) v) es))"

fun del :: "node \<Rightarrow> path \<Rightarrow> node" where
  "del n [] = n"
| "del File (x # xs) = File"
| "del (Dir es) [x] = Dir (AList.delete x es)"
| "del (Dir es) (x # y # ys) =
     (case map_of es x of
        None \<Rightarrow> Dir es
      | Some c \<Rightarrow> Dir (AList.update x (del c (y # ys)) es))"

text \<open>
  \<^verbatim>\<open>os.mkdir(p)\<close>: the root exists; the parent must be a directory; the target must
  not exist.
\<close>

definition os_mkdir :: "node \<Rightarrow> path \<Rightarrow> errno + node" where
  "os_mkdir fs p =
     (if p = [] then Inl EEXIST
      else case lookup fs (butlast p) of
        None \<Rightarrow>
          if list_ex (\<lambda>q. lookup fs q = Some File) (prefixes (butlast p))
          then Inl ENOTDIR else Inl ENOENT
      | Some File \<Rightarrow> Inl ENOTDIR
      | Some (Dir es) \<Rightarrow>
          (case map_of es (last p) of
             Some c \<Rightarrow> Inl EEXIST
           | None \<Rightarrow> Inr (put fs p (Dir []))))"

text \<open>
  \<^verbatim>\<open>Path.mkdir(parents, exist_ok)\<close> of pathlib: \<^verbatim>\<open>FileNotFoundError\<close> makes it create
  the parent first when \<open>parents\<close> is set (it is re-raised for the root, which is its
  own parent); any other \<^verbatim>\<open>OSError\<close> is swallowed only when \<open>exist_ok\<close> is set and the
  path is a directory.
\<close>

function mkdir :: "bool \<Rightarrow> bool \<Rightarrow> node \<Rightarrow> path \<Rightarrow> errno + node" where
  "mkdir parents exist_ok fs p =
     (case os_mkdir fs p of
        Inr fs' \<Rightarrow> Inr fs'
      | Inl ENOENT \<Rightarrow>
          if \<not> parents \<or> p = [] then Inl ENOENT
          else (case mkdir True True fs (butlast p) of
                  Inl e \<Rightarrow> Inl e
                | Inr fs1 \<Rightarrow> mkdir False exist_ok fs1 p)
      | Inl e \<Rightarrow> if \<not> exist_ok \<or> \<not> is_dir fs p then Inl e else Inr fs)"
  by pat_completeness auto
termination
  by (relation "measure (\<lambda>(parents, exist_ok, fs, p). 2 * length p + (if parents then 1 else 0))")
     auto

declare mkdir.simps [simp del]

text \<open>
  \<^verbatim>\<open>Path.iterdir()\<close>: the names of the entries of a directory, in directory order.
\<close>

definition iterdir :: "node \<Rightarrow> path \<Rightarrow> errno + string list" where
  "iterdir fs p =
     (case lookup fs p of
        None \<Rightarrow> Inl ENOENT
      | Some File \<Rightarrow> Inl ENOTDIR
      | Some (Dir es) \<Rightarrow> Inr (map fst es))"

text \<open>
  \<^verbatim>\<open>shutil.rmtree(p, ignore_errors=False)\<close>: removes the directory \<open>p\<close> with all it
  holds; it raises for a missing path and for a path that is not a directory. The
  root cannot be removed.
\<close>

definition rmtree :: "node \<Rightarrow> path \<Rightarrow> errno + node" where
  "rmtree fs p =
     (if p = [] then Inl EBUSY
      else case lookup fs p of
        None \<Rightarrow> Inl ENOENT
      | Some File \<Rightarrow> Inl ENOTDIR
      | Some (Dir es) \<Rightarrow> Inr (del fs p))"

text \<open>
  \<^verbatim>\<open>os.makedirs(p)\<close> with \<^verbatim>\<open>exist_ok=False\<close>: when the parent does not exist it is
  made first, a \<^verbatim>\<open>FileExistsError\<close> of that call being passed over; then \<^verbatim>\<open>os.mkdir\<close>
  makes the directory. The result is the error raised, if any, and the filesystem
  that the call leaves.
\<close>

function makedirs :: "node \<Rightarrow> path \<Rightarrow> errno option \<times> node" where
  "makedirs fs p =
     (if p = [] then (Some EEXIST, fs)
      else
        case (if butlast p \<noteq> [] \<and> \<not> exists fs (butlast p) then makedirs fs (butlast p)
              else (None, fs)) of
          (r, fs1) \<Rightarrow>
            if r \<noteq> None \<and> r \<noteq> Some EEXIST then (r, fs1)
            else (case os_mkdir fs1 p of
                    Inl e \<Rightarrow> (Some e, fs1)
                  | Inr fs2 \<Rightarrow> (None, fs2)))"
  by pat_completeness auto
termination
  by (relation "measure (\<lambda>(fs, p). length p)") auto

declare makedirs.simps [simp del]

text \<open>
  \<^verbatim>\<open>shutil.move(src, dst)\<close> for a destination that does not exist, the only case the
  storage service reaches. \<^verbatim>\<open>os.rename\<close> moves the node when the parent of the
  destination is a directory and the destination does not lie inside the source.
  When \<^verbatim>\<open>os.rename\<close> fails, a source that is a directory is refused if the destination
  lies inside it (\<^verbatim>\<open>shutil.Error\<close>, an \<^verbatim>\<open>OSError\<close>) and is otherwise copied with
  \<^verbatim>\<open>copytree\<close>, which makes the destination with \<^verbatim>\<open>os.makedirs\<close>, and then removed; a
  source that is a regular file is copied, which fails as \<^verbatim>\<open>os.rename\<close> did. The
  result is the path moved to, or the error, and the filesystem that the call leaves.
\<close>

definition move :: "node \<Rightarrow> path \<Rightarrow> path \<Rightarrow> (errno + path) \<times> node" where
  "move fs src dst =
     (case lookup fs src of
        None \<Rightarrow> (Inl ENOENT, fs)
      | Some n \<Rightarrow>
          if src = [] \<or> dst = [] then (Inl EBUSY, fs)
          else if exists fs dst then (Inl EEXIST, fs)
          else if prefix src dst then (Inl EINVAL, fs)
          else if is_dir fs (butlast dst) then (Inr dst, put (del fs src) dst n)
          else (case n of
                  File \<Rightarrow> (Inl ENOENT, fs)
                | Dir es \<Rightarrow>
                    (case makedirs fs dst of
                       (Some e, fs1) \<Rightarrow> (Inl e, fs1)
                     | (None, fs1) \<Rightarrow> (Inr dst, del (put fs1 dst n) src))))"

section \<open>The daily backup storage service\<close>

text \<open>
  \<^verbatim>\<open>DailyBackupStorageService\<close>; \<open>base_directory\<close> is its only field. Every method
  takes the filesystem and returns it with its result.
\<close>

definition prepare_daily_directory ::
  "path \<Rightarrow> date \<Rightarrow> node \<Rightarrow> (error + path option) \<times> node" where
  "prepare_daily_directory base_directory backup_date fs =
     (case mkdir True True fs base_directory of
        Inl e \<Rightarrow> (Inl BackupStorageError, fs)
      | Inr fs1 \<Rightarrow>
          let target_dir = joinpath base_directory (strftime backup_date)
          in if exists fs1 target_dir then
               (if \<not> is_dir fs1 target_dir then (Inl BackupStorageError, fs1)
                else (Inr None, fs1))
             else (case mkdir False False fs1 target_dir of
                     Inl e \<Rightarrow> (Inl BackupStorageError, fs1)
                   | Inr fs2 \<Rightarrow> (Inr (Some target_dir), fs2)))"

definition store_archive ::
  "path \<Rightarrow> path \<Rightarrow> string \<Rightarrow> node \<Rightarrow> (error + path) \<times> node" where
  "store_archive archive_path destination_dir filename fs =
     (if \<not> exists fs archive_path then (Inl BackupStorageError, fs)
      else if \<not> exists fs destination_dir \<or> \<not> is_dir fs destination_dir
      then (Inl BackupStorageError, fs)
      else
        let destination = joinpath destination_dir filename
        in if exists fs destination then (Inl BackupStorageError, fs)
           else (case move fs archive_path destination of
                   (Inl e, fs') \<Rightarrow> (Inl BackupStorageError, fs')
                 | (Inr moved_path, fs') \<Rightarrow> (Inr moved_path, fs')))"

text \<open>
  The loop of \<^verbatim>\<open>prune_older_than\<close> over the names that \<^verbatim>\<open>iterdir\<close> gave. An
  \<^verbatim>\<open>OSError\<close> of \<^verbatim>\<open>rmtree\<close> is not caught.
\<close>

fun prune_loop ::
  "path \<Rightarrow> date \<Rightarrow> string list \<Rightarrow> node \<Rightarrow> path list \<Rightarrow> (error + path list) \<times> node" where
  "prune_loop base_directory keep_from [] fs removed = (Inr removed, fs)"
| "prune_loop base_directory keep_from (name # names) fs removed =
     (let candidate = base_directory @ [name]
      in if \<not> is_dir fs candidate then prune_loop base_directory keep_from names fs removed
         else case strptime name of
           None \<Rightarrow> prune_loop base_directory keep_from names fs removed
         | Some candidate_date \<Rightarrow>
             if date_less candidate_date keep_from then
               (case rmtree fs candidate of
                  Inl e \<Rightarrow> (Inl OSError, fs)
                | Inr fs' \<Rightarrow>
                    prune_loop base_directory keep_from names fs' (removed @ [candidate]))
             else prune_loop base_directory keep_from names fs removed)"

text \<open>
  \<open>today\<close> is \<^verbatim>\<open>date.today()\<close>, read only when no reference date is given.
\<close>

definition prune_older_than ::
  "path \<Rightarrow> date \<Rightarrow> int \<Rightarrow> date option \<Rightarrow> node \<Rightarrow> (error + path list) \<times> node" where
  "prune_older_than base_directory today retention_days reference_date fs =
     (let retention_days = (if retention_days \<le> 0 then 1 else retention_days);
          reference = (case reference_date of Some d \<Rightarrow> d | None \<Rightarrow> today)
      in case date_sub_days reference (retention_days - 1) of
           Inl e \<Rightarrow> (Inl e, fs)
         | Inr keep_from \<Rightarrow>
             if \<not> exists fs base_directory then (Inr [], fs)
             else (case iterdir fs base_directory of
                     Inl e \<Rightarrow> (Inl OSError, fs)
                   | Inr names \<Rightarrow> prune_loop base_directory keep_from names fs []))"

section \<open>The use cases\<close>

text \<open>
  The abstract services of the domain layer are records of their methods over a world
  \<open>'w\<close> that every call takes and returns.
\<close>

record 'w backup_storage_service =
  svc_prepare_daily_directory :: "date \<Rightarrow> 'w \<Rightarrow> (error + path option) \<times> 'w"
  svc_store_archive :: "path \<Rightarrow> path \<Rightarrow> string \<Rightarrow> 'w \<Rightarrow> (error + path) \<times> 'w"
  svc_prune_older_than :: "int \<Rightarrow> date option \<Rightarrow> 'w \<Rightarrow> (error + path list) \<times> 'w"

record 'w archive_service =
  svc_create_zip :: "path \<Rightarrow> 'w \<Rightarrow> (error + path) \<times> 'w"

text \<open>The filesystem-backed storage service as such a record.\<close>

definition daily_backup_storage_service :: "path \<Rightarrow> date \<Rightarrow> node backup_storage_service" where
  "daily_backup_storage_service base_directory today =
     \<lparr>svc_prepare_daily_directory = prepare_daily_directory base_directory,
      svc_store_archive = store_archive,
      svc_prune_older_than = prune_older_than base_directory today\<rparr>"

text \<open>
  \<^verbatim>\<open>EnsureDailyBackupUseCase\<close>. Its \<open>execute\<close> returns, beside its result and the
  world, the calls it made on its two services, in order.
\<close>

record 'w ensure_daily_backup_use_case =
  archive_service :: "'w archive_service"
  backup_storage :: "'w backup_storage_service"
  server_root :: path
  retention_days :: int
  archive_filename :: string

datatype service_call =
    PrepareDailyDirectory date
  | CreateZip path
  | StoreArchive path path string
  | PruneOlderThan int date

definition ensure_daily_backup_execute ::
  "'w ensure_daily_backup_use_case \<Rightarrow> date \<Rightarrow> 'w \<Rightarrow> (error + bool) \<times> 'w \<times> service_call list" where
  "ensure_daily_backup_execute uc today w =
     (case svc_prepare_daily_directory (backup_storage uc) today w of
        (Inl e, w1) \<Rightarrow> (Inl e, w1, [PrepareDailyDirectory today])
      | (Inr None, w1) \<Rightarrow> (Inr False, w1, [PrepareDailyDirectory today])
      | (Inr (Some destination_dir), w1) \<Rightarrow>
          (case svc_create_zip (archive_service uc) (server_root uc) w1 of
             (Inl e, w2) \<Rightarrow>
               (Inl e, w2, [PrepareDailyDirectory today, CreateZip (server_root uc)])
           | (Inr archive_path, w2) \<Rightarrow>
               (case svc_store_archive (backup_storage uc) archive_path destination_dir
                       (archive_filename uc) w2 of
                  (Inl e, w3) \<Rightarrow>
                    (Inl e, w3,
                     [PrepareDailyDirectory today, CreateZip (server_root uc),
                      StoreArchive archive_path destination_dir (archive_filename uc)])
                | (Inr stored, w3) \<Rightarrow>
                    (case svc_prune_older_than (backup_storage uc) (retention_days uc)
                            (Some today) w3 of
                       (Inl e, w4) \<Rightarrow>
                         (Inl e, w4,
                          [PrepareDailyDirectory today, CreateZip (server_root uc),
                           StoreArchive archive_path destination_dir (archive_filename uc),
                           PruneOlderThan (retention_days uc) today])
                     | (Inr removed, w4) \<Rightarrow>
                         (Inr True, w4,
                          [PrepareDailyDirectory today, CreateZip (server_root uc),
                           StoreArchive archive_path destination_dir (archive_filename uc),
                           PruneOlderThan (retention_days uc) today])))))"

text \<open>
  \<^verbatim>\<open>StartServerWorkflowUseCase\<close>: the start use case and the optional backup use
  case are the \<open>execute\<close> methods it was built with.
\<close>

definition start_server_workflow_execute ::
  "('w \<Rightarrow> (error + unit) \<times> 'w) \<Rightarrow> ('w \<Rightarrow> (error + bool) \<times> 'w) option \<Rightarrow> 'w
     \<Rightarrow> (error + bool) \<times> 'w" where
  "start_server_workflow_execute start_use_case backup_use_case w =
     (case (case backup_use_case of
              None \<Rightarrow> (Inr False, w)
            | Some backup_execute \<Rightarrow> backup_execute w) of
        (Inl e, w1) \<Rightarrow> (Inl e, w1)
      | (Inr backup_performed, w1) \<Rightarrow>
          (case start_use_case w1 of
             (Inl e, w2) \<Rightarrow> (Inl e, w2)
           | (Inr u, w2) \<Rightarrow> (Inr backup_performed, w2)))"

section \<open>The subprocess server manager\<close>

datatype ServerState = STOPPED | STARTING | RUNNING

text \<open>
  The fields of \<^verbatim>\<open>SubprocessServerManager\<close>: the \<^verbatim>\<open>Popen\<close> handle (identified by the
  pid of the child), the cached state and the monotonic time of the last transition.
  The lock is not modelled: every operation runs alone. Readings of the monotonic
  clock are real numbers and elapsed time is their exact difference; the code
  subtracts doubles, which rounds, so that the two agree whenever the exact
  difference is a double, as it is for readings in whole seconds.
\<close>

record manager =
  process :: "nat option"
  state :: ServerState
  state_since :: real

definition startup_grace_period :: real where
  "startup_grace_period = 10"

definition init :: "real \<Rightarrow> manager" where
  "init t = \<lparr>process = None, state = STOPPED, state_since = t\<rparr>"

text \<open>
  What one critical section observes of its environment: the result of
  \<^verbatim>\<open>self._process.poll()\<close> (\<open>None\<close> while the child is alive, its return code once
  it has exited) and the reading of \<^verbatim>\<open>monotonic()\<close>. Both are taken as fixed for the
  duration of one critical section; clock readings are real numbers.
\<close>

record env =
  poll :: "int option"
  monotonic :: real

definition set_state_locked :: "ServerState \<Rightarrow> env \<Rightarrow> manager \<Rightarrow> manager" where
  "set_state_locked s e m =
     (if state m = s then m else m\<lparr>state := s, state_since := monotonic e\<rparr>)"

definition refresh_state_locked :: "bool option \<Rightarrow> env \<Rightarrow> manager \<Rightarrow> manager" where
  "refresh_state_locked running_arg e m =
     (let running = (case running_arg of
                       None \<Rightarrow> process m \<noteq> None \<and> poll e = None
                     | Some r \<Rightarrow> r)
      in if \<not> running then
           set_state_locked STOPPED e
             (if process m \<noteq> None \<and> poll e \<noteq> None then m\<lparr>process := None\<rparr> else m)
         else if state m = STARTING then
           (let elapsed = monotonic e - state_since m
            in if elapsed \<ge> startup_grace_period then set_state_locked RUNNING e m else m)
         else if state m \<noteq> RUNNING then set_state_locked RUNNING e m
         else m)"

definition is_running :: "env \<Rightarrow> manager \<Rightarrow> bool \<times> manager" where
  "is_running e m =
     (let running = (process m \<noteq> None \<and> poll e = None)
      in (running, refresh_state_locked (Some running) e m))"

definition get_state :: "env \<Rightarrow> manager \<Rightarrow> ServerState \<times> manager" where
  "get_state e m = (let m' = refresh_state_locked None e m in (state m', m'))"

text \<open>
  The operating-system calls that \<^verbatim>\<open>start\<close> and \<^verbatim>\<open>stop\<close> issue are returned as a
  trace, in the order of the calls. \<open>Killpg p s\<close> is
  \<^verbatim>\<open>os.killpg(os.getpgid(p), s)\<close>, a signal to the whole process group of \<open>p\<close>;
  \<open>Kill p s\<close> is a signal to the process \<open>p\<close> alone (\<^verbatim>\<open>process.send_signal\<close>,
  \<^verbatim>\<open>process.kill\<close>); \<open>Taskkill p\<close> is \<^verbatim>\<open>taskkill /PID p /T /F\<close>; \<open>Wait p n\<close> is
  \<^verbatim>\<open>process.wait(timeout=n)\<close>.
\<close>

datatype signal = SIGTERM | SIGKILL | CTRL_BREAK_EVENT

datatype arg = Str string | PathStr path

record popen_args =
  command :: "arg list"
  create_new_process_group :: bool
  preexec_setsid :: bool
  cwd :: path

datatype os_call =
    Popen popen_args
  | Killpg nat signal
  | Kill nat signal
  | Taskkill nat
  | Wait nat nat

text \<open>
  \<^verbatim>\<open>start\<close>. \<open>nt\<close> is \<^verbatim>\<open>os.name == "nt"\<close>; \<open>spawn\<close> is the outcome of
  \<^verbatim>\<open>subprocess.Popen\<close> on the given arguments, the pid of the child or the exception
  it raises.
\<close>

definition start ::
  "bool \<Rightarrow> (popen_args \<Rightarrow> error + nat) \<Rightarrow> node \<Rightarrow> path \<Rightarrow> env \<Rightarrow> manager
     \<Rightarrow> (error + unit) \<times> manager \<times> os_call list" where
  "start nt spawn fs script_path e m =
     (if \<not> exists fs script_path then (Inl ResourceNotFoundError, m, [])
      else
        let args = (if nt
                    then \<lparr>command = [Str ''cmd.exe'', Str ''/c'', PathStr script_path],
                          create_new_process_group = True, preexec_setsid = False,
                          cwd = butlast script_path\<rparr>
                    else \<lparr>command = [PathStr script_path],
                          create_new_process_group = False, preexec_setsid = True,
                          cwd = butlast script_path\<rparr>)
        in if process m \<noteq> None \<and> poll e = None then (Inl ServerAlreadyRunningError, m, [])
           else
             let m1 = set_state_locked STARTING e m
             in case spawn args of
                  Inr p \<Rightarrow> (Inr (), m1\<lparr>process := Some p\<rparr>, [Popen args])
                | Inl err \<Rightarrow>
                    (Inl err, set_state_locked STOPPED e (m1\<lparr>process := None\<rparr>), [Popen args]))"

text \<open>
  \<^verbatim>\<open>stop\<close>. The part between the two critical sections is \<open>terminate\<close>; its
  environment says whether sending the signal raises, whether the child exits within
  the 60 second wait (\<open>None\<close> is \<^verbatim>\<open>TimeoutExpired\<close>), the return code of
  \<^verbatim>\<open>taskkill\<close> and whether the child exits within the second wait of 10 seconds.
\<close>

record stop_env =
  enter :: env
  signal_raises :: bool
  wait60 :: "int option"
  taskkill_returncode :: int
  wait10 :: "int option"
  leave :: env

definition terminate :: "bool \<Rightarrow> stop_env \<Rightarrow> nat \<Rightarrow> (error + unit) \<times> os_call list" where
  "terminate nt se p =
     (if nt then
        (if signal_raises se then (Inl OSError, [Kill p CTRL_BREAK_EVENT])
         else case wait60 se of
           Some rc \<Rightarrow> (Inr (), [Kill p CTRL_BREAK_EVENT, Wait p 60])
         | None \<Rightarrow>
             if taskkill_returncode se \<noteq> 0
             then (Inl ServerNotRunningError, [Kill p CTRL_BREAK_EVENT, Wait p 60, Taskkill p])
             else (case wait10 se of
                     Some rc \<Rightarrow>
                       (Inr (), [Kill p CTRL_BREAK_EVENT, Wait p 60, Taskkill p, Wait p 10])
                   | None \<Rightarrow>
                       (Inl ServerNotRunningError,
                        [Kill p CTRL_BREAK_EVENT, Wait p 60, Taskkill p, Wait p 10])))
      else
        (if signal_raises se then (Inl OSError, [Killpg p SIGTERM])
         else case wait60 se of
           Some rc \<Rightarrow> (Inr (), [Killpg p SIGTERM, Wait p 60])
         | None \<Rightarrow> (Inl ServerNotRunningError, [Killpg p SIGTERM, Wait p 60, Kill p SIGKILL])))"

definition stop :: "bool \<Rightarrow> stop_env \<Rightarrow> manager \<Rightarrow> (error + unit) \<times> manager \<times> os_call list" where
  "stop nt se m =
     (let not_running =
            (Inl ServerNotRunningError,
             set_state_locked STOPPED (enter se) (m\<lparr>process := None\<rparr>), [])
      in case process m of
           None \<Rightarrow> not_running
         | Some p \<Rightarrow>
             if poll (enter se) \<noteq> None then not_running
             else (case terminate nt se p of
                     (Inr u, calls) \<Rightarrow>
                       (Inr (), set_state_locked STOPPED (leave se) (m\<lparr>process := None\<rparr>),
                        calls)
                   | (Inl err, calls) \<Rightarrow>
                       (Inl err, refresh_state_locked None (leave se) m, calls)))"

text \<open>
  The public operations as a datatype, each with the environment it runs in, and the
  manager that a sequence of calls leaves.
\<close>

datatype manager_call =
    IsRunning env
  | GetState env
  | Start bool "popen_args \<Rightarrow> error + nat" node path env
  | Stop bool stop_env

fun apply_call :: "manager_call \<Rightarrow> manager \<Rightarrow> manager" where
  "apply_call (IsRunning e) m = snd (is_running e m)"
| "apply_call (GetState e) m = snd (get_state e m)"
| "apply_call (Start nt spawn fs script_path e) m = fst (snd (start nt spawn fs script_path e m))"
| "apply_call (Stop nt se) m = fst (snd (stop nt se m))"

definition run_calls :: "manager_call list \<Rightarrow> manager \<Rightarrow> manager" where
  "run_calls cs m = fold apply_call cs m"

text \<open>
  The handle and the cached state agree: the state is \<open>STOPPED\<close> exactly when no
  handle is held.
\<close>

definition handle_consistent :: "manager \<Rightarrow> bool" where
  "handle_consistent m = ((state m = STOPPED) = (process m = None))"

subsection \<open>Example inputs\<close>

definition ex_script :: path where
  "ex_script = [''srv'', ''start.sh'']"

definition ex_fs :: node where
  "ex_fs = Dir [(''srv'', Dir [(''start.sh'', File)])]"

definition ex_spawn :: "popen_args \<Rightarrow> error + nat" where
  "ex_spawn args = Inr 4242"

definition ex_spawn_fails :: "popen_args \<Rightarrow> error + nat" where
  "ex_spawn_fails args = Inl OSError"

definition ex_running :: manager where
  "ex_running = \<lparr>process = Some 4242, state = RUNNING, state_since = 3\<rparr>"

definition ex_starting :: manager where
  "ex_starting = \<lparr>process = Some 4242, state = STARTING, state_since = 100\<rparr>"

definition alive_at :: "real \<Rightarrow> env" where
  "alive_at t = \<lparr>poll = None, monotonic = t\<rparr>"

definition exited_at :: "real \<Rightarrow> env" where
  "exited_at t = \<lparr>poll = Some 1, monotonic = t\<rparr>"

text \<open>
  A stop on POSIX whose wait of 60 seconds times out, the child being alive before and
  after; and a stop that finds the child exited.
\<close>

definition ex_stop_timeout :: stop_env where
  "ex_stop_timeout =
     \<lparr>enter = alive_at 50, signal_raises = False, wait60 = None, taskkill_returncode = 0,
      wait10 = None, leave = alive_at 110\<rparr>"

definition ex_stop_exited :: stop_env where
  "ex_stop_exited =
     \<lparr>enter = exited_at 50, signal_raises = False, wait60 = Some 0, taskkill_returncode = 0,
      wait10 = None, leave = exited_at 51\<rparr>"

section \<open>The services wired together\<close>

text \<open>
  \<^verbatim>\<open>ZipArchiveService.create_zip\<close> without extra files. \<open>tmp_path\<close> is the name that
  \<^verbatim>\<open>tempfile.mkstemp\<close> picks, a name that does not exist before; its \<^verbatim>\<open>OSError\<close> for
  a missing temporary directory is outside the \<^verbatim>\<open>try\<close> block. Files have no content
  in the model, so the archive is the file written at that name.
\<close>

definition create_zip :: "path \<Rightarrow> path \<Rightarrow> node \<Rightarrow> (error + path) \<times> node" where
  "create_zip tmp_path source fs =
     (if \<not> exists fs source then (Inl ResourceNotFoundError, fs)
      else if \<not> is_dir fs source then (Inl ArchiveCreationError, fs)
      else if tmp_path = [] \<or> \<not> is_dir fs (butlast tmp_path) then (Inl OSError, fs)
      else (Inr tmp_path, put fs tmp_path File))"

definition zip_archive_service :: "path \<Rightarrow> node archive_service" where
  "zip_archive_service tmp_path = \<lparr>svc_create_zip = create_zip tmp_path\<rparr>"

text \<open>
  The world of the running backend: the filesystem and the process manager.
  \<^verbatim>\<open>StartServerUseCase.execute\<close> calls \<open>start\<close> of the manager with its script path;
  the backup use case works on the filesystem.
\<close>

record world =
  files :: node
  server :: manager

definition start_server_execute ::
  "bool \<Rightarrow> (popen_args \<Rightarrow> error + nat) \<Rightarrow> path \<Rightarrow> env \<Rightarrow> world \<Rightarrow> (error + unit) \<times> world" where
  "start_server_execute nt spawn script_path e w =
     (case start nt spawn (files w) script_path e (server w) of
        (r, m, calls) \<Rightarrow> (r, w\<lparr>server := m\<rparr>))"

definition ensure_daily_backup ::
  "node ensure_daily_backup_use_case \<Rightarrow> date \<Rightarrow> world \<Rightarrow> (error + bool) \<times> world" where
  "ensure_daily_backup uc today w =
     (case ensure_daily_backup_execute uc today (files w) of
        (r, fs, calls) \<Rightarrow> (r, w\<lparr>files := fs\<rparr>))"

subsection \<open>An example installation\<close>

definition ex_today :: date where
  "ex_today = \<lparr>year = 2024, month = 1, day = 10\<rparr>"

definition ex_tmp :: path where
  "ex_tmp = [''tmp'', ''minecraft-backend-0.zip'']"

definition ex_use_case :: "node ensure_daily_backup_use_case" where
  "ex_use_case =
     \<lparr>archive_service = zip_archive_service ex_tmp,
      backup_storage = daily_backup_storage_service [''backups''] ex_today,
      server_root = [''srv''], retention_days = 7, archive_filename = ''world.zip''\<rparr>"

text \<open>The first day: nothing has been backed up yet.\<close>

definition ex_disk :: node where
  "ex_disk = Dir [(''srv'', Dir [(''start.sh'', File)]), (''tmp'', Dir [])]"

text \<open>Later that day: the dated directory holds the archive.\<close>

definition ex_disk_backed_up :: node where
  "ex_disk_backed_up =
     Dir [(''srv'', Dir [(''start.sh'', File)]), (''tmp'', Dir []),
          (''backups'', Dir [(''2024-01-10'', Dir [(''world.zip'', File)])])]"

text \<open>A use case whose backup root is the start script, a regular file.\<close>

definition ex_use_case_bad_root :: "node ensure_daily_backup_use_case" where
  "ex_use_case_bad_root =
     ex_use_case\<lparr>backup_storage := daily_backup_storage_service ex_script ex_today\<rparr>"

text \<open>The first day after \<open>create_zip\<close>: the archive waits in the temporary directory.\<close>

definition ex_disk_zipped :: node where
  "ex_disk_zipped =
     Dir [(''srv'', Dir [(''start.sh'', File)]),
          (''tmp'', Dir [(''minecraft-backend-0.zip'', File)]),
          (''backups'', Dir [(''2024-01-10'', Dir [])])]"

subsection \<open>The words of the specification\<close>

text \<open>
  A regular file is on the way to a path when one of the prefixes of the path is a
  regular file.
\<close>

definition file_on_the_way :: "node \<Rightarrow> path \<Rightarrow> bool" where
  "file_on_the_way fs p = list_ex (\<lambda>q. lookup fs q = Some File) (prefixes p)"

text \<open>
  A name of the backup root is expired when it parses as a date strictly earlier than
  the first date to keep.
\<close>

definition expired :: "date \<Rightarrow> string \<Rightarrow> bool" where
  "expired keep_from name =
     (case strptime name of None \<Rightarrow> False | Some d \<Rightarrow> date_less d keep_from)"

subsection \<open>An example backup root\<close>

text \<open>
  The name \<^verbatim>\<open>2024-01-01\<close> with the year in fullwidth digits (U+FF12, U+FF10, U+FF12,
  U+FF14), encoded in UTF-8.
\<close>

definition ex_fullwidth_name :: string where
  "ex_fullwidth_name =
     [CHR 0xEF, CHR 0xBC, CHR 0x92, CHR 0xEF, CHR 0xBC, CHR 0x90,
      CHR 0xEF, CHR 0xBC, CHR 0x92, CHR 0xEF, CHR 0xBC, CHR 0x94] @ ''-01-01''"

definition ex_backups :: node where
  "ex_backups =
     Dir [(''backups'',
           Dir [(''2024-01-02'', Dir [(''world.zip'', File)]), (''2024-01-03'', Dir []),
                (''2024-01-04'', Dir []), (''2024-01-10'', Dir []), (''notes'', Dir []),
                (''2023-12-31'', File), (ex_fullwidth_name, Dir [])])]"

definition ex_backups_pruned :: node where
  "ex_backups_pruned =
     Dir [(''backups'',
           Dir [(''2024-01-04'', Dir []), (''2024-01-10'', Dir []), (''notes'', Dir []),
                (''2023-12-31'', File)])]"

section \<open>Properties of the manager\<close>

subsection \<open>Queries\<close>

lemma get_state_dead: "poll e \<noteq> None \<Longrightarrow> fst (get_state e m) = STOPPED"
  by (auto simp: get_state_def refresh_state_locked_def set_state_locked_def Let_def)

lemma get_state_dead_clears:
  "poll e \<noteq> None \<Longrightarrow> process (snd (get_state e m)) = None \<and> state (snd (get_state e m)) = STOPPED"
  by (auto simp: get_state_def refresh_state_locked_def set_state_locked_def Let_def)

lemma is_running_dead_clears:
  "poll e \<noteq> None \<Longrightarrow>
     \<not> fst (is_running e m) \<and> process (snd (is_running e m)) = None
     \<and> state (snd (is_running e m)) = STOPPED"
  by (auto simp: is_running_def refresh_state_locked_def set_state_locked_def Let_def)

lemma get_state_starting_early:
  "state m = STARTING \<Longrightarrow> process m \<noteq> None \<Longrightarrow> poll e = None
   \<Longrightarrow> monotonic e - state_since m < startup_grace_period
   \<Longrightarrow> get_state e m = (STARTING, m)"
  by (auto simp: get_state_def refresh_state_locked_def set_state_locked_def Let_def)

lemma get_state_starting_late:
  "state m = STARTING \<Longrightarrow> process m \<noteq> None \<Longrightarrow> poll e = None
   \<Longrightarrow> startup_grace_period \<le> monotonic e - state_since m
   \<Longrightarrow> get_state e m = (RUNNING, m\<lparr>state := RUNNING, state_since := monotonic e\<rparr>)"
  by (auto simp: get_state_def refresh_state_locked_def set_state_locked_def Let_def)

lemma start_success:
  assumes "start nt spawn fs script_path e0 m0 = (Inr u, m, calls)"
  shows "state m = STARTING \<and> process m \<noteq> None
       \<and> (state m0 \<noteq> STARTING \<longrightarrow> state_since m = monotonic e0)
       \<and> (state m0 = STARTING \<longrightarrow> state_since m = state_since m0)"
  using assms by (auto simp: start_def set_state_locked_def Let_def split: if_splits sum.splits)

text \<open>
  C5. The grace period is counted from the recorded time of the last transition, and
  \<open>set_state_locked\<close> records no time when the state it is given is the cached one.
  So a \<open>start\<close> that finds the cached state \<open>STARTING\<close>, the child of an earlier
  \<open>start\<close> having died with no query in between, succeeds and keeps the time of the
  earlier \<open>start\<close>. Here the manager is started at 100 and, the first child dead, again
  at 111: the second \<open>start\<close> succeeds, the recorded time is still 100, and the
  \<open>get_state\<close> made at once, at 111 with the new child alive, returns \<open>RUNNING\<close>.
  After a \<open>start\<close> at 111 from \<open>STOPPED\<close> the same \<open>get_state\<close> returns
  \<open>STARTING\<close>.
\<close>

theorem restart_on_stale_starting_skips_grace_period:
  "fst (start False ex_spawn ex_fs ex_script (alive_at 100) (init 0)) = Inr ()
   \<and> fst (snd (start False ex_spawn ex_fs ex_script (alive_at 100) (init 0))) = ex_starting
   \<and> fst (start False ex_spawn ex_fs ex_script (exited_at 111) ex_starting) = Inr ()
   \<and> fst (snd (start False ex_spawn ex_fs ex_script (exited_at 111) ex_starting)) =
       \<lparr>process = Some 4242, state = STARTING, state_since = 100\<rparr>
   \<and> get_state (alive_at 111) \<lparr>process = Some 4242, state = STARTING, state_since = 100\<rparr> =
       (RUNNING, \<lparr>process = Some 4242, state = RUNNING, state_since = 111\<rparr>)
   \<and> fst (snd (start False ex_spawn ex_fs ex_script (alive_at 111) (init 0))) =
       \<lparr>process = Some 4242, state = STARTING, state_since = 111\<rparr>
   \<and> get_state (alive_at 111) \<lparr>process = Some 4242, state = STARTING, state_since = 111\<rparr> =
       (STARTING, \<lparr>process = Some 4242, state = STARTING, state_since = 111\<rparr>)"
  by (simp add: start_def get_state_def refresh_state_locked_def set_state_locked_def Let_def
        init_def ex_starting_def ex_spawn_def ex_fs_def ex_script_def exists_def alive_at_def
        exited_at_def startup_grace_period_def)

subsection \<open>Start\<close>

text \<open>
  C6, as the code has it. \<open>start\<close> looks for the script before it looks at the
  handle: with a live process and a script path that does not exist it fails with
  \<open>ResourceNotFoundError\<close>, not with \<open>ServerAlreadyRunningError\<close>.
\<close>

theorem start_while_running_missing_script:
  "process ex_running \<noteq> None \<and> poll (alive_at 20) = None
   \<and> start False ex_spawn (Dir []) ex_script (alive_at 20) ex_running
       = (Inl ResourceNotFoundError, ex_running, [])"
  by (simp add: start_def exists_def ex_script_def ex_running_def alive_at_def)

text \<open>
  C6, amended. Whenever \<open>start\<close> is called with a script path that exists while a
  process handle is held and the process is alive, it fails with
  \<open>ServerAlreadyRunningError\<close>, spawns nothing, and leaves the cached state, the
  handle and the transition timestamp as they were.
\<close>

theorem start_while_running:
  assumes "exists fs script_path" and "process m \<noteq> None" and "poll e = None"
  shows "start nt spawn fs script_path e m = (Inl ServerAlreadyRunningError, m, [])"
  using assms by (simp add: start_def Let_def)

theorem start_while_running_witness:
  "start False ex_spawn ex_fs ex_script (alive_at 20) ex_running
     = (Inl ServerAlreadyRunningError, ex_running, [])"
proof -
  have "exists ex_fs ex_script"
    by (simp add: exists_def ex_fs_def ex_script_def)
  moreover have "process ex_running \<noteq> None"
    by (simp add: ex_running_def)
  moreover have "poll (alive_at 20) = None"
    by (simp add: alive_at_def)
  ultimately show ?thesis
    by (rule start_while_running)
qed

subsection \<open>Stop\<close>

lemma stop_no_live_handle:
  assumes "process m = None \<or> poll (enter se) \<noteq> None"
  shows "fst (stop nt se m) = Inl ServerNotRunningError
       \<and> process (fst (snd (stop nt se m))) = None
       \<and> state (fst (snd (stop nt se m))) = STOPPED
       \<and> snd (snd (stop nt se m)) = []"
  using assms by (auto simp: stop_def set_state_locked_def Let_def split: option.splits)

text \<open>
  C7. Whenever \<open>stop\<close> is called with no live process handle (the handle is absent, or
  the poll reports that the process has exited), it fails with
  \<open>ServerNotRunningError\<close>, signals nothing, and leaves the manager with no handle and
  the cached state \<open>STOPPED\<close>.
\<close>

theorem stop_not_running:
  assumes "process m = None \<or> poll (enter se) \<noteq> None"
  shows "fst (stop nt se m) = Inl ServerNotRunningError
       \<and> process (fst (snd (stop nt se m))) = None
       \<and> state (fst (snd (stop nt se m))) = STOPPED
       \<and> snd (snd (stop nt se m)) = []"
  using assms by (rule stop_no_live_handle)

theorem stop_not_running_witness:
  "fst (stop False ex_stop_exited ex_running) = Inl ServerNotRunningError
   \<and> process (fst (snd (stop False ex_stop_exited ex_running))) = None
   \<and> state (fst (snd (stop False ex_stop_exited ex_running))) = STOPPED
   \<and> snd (snd (stop False ex_stop_exited ex_running)) = []"
proof -
  have "process ex_running = None \<or> poll (enter ex_stop_exited) \<noteq> None"
    by (simp add: ex_stop_exited_def exited_at_def)
  then show ?thesis
    by (rule stop_not_running)
qed

text \<open>
  What \<open>stop\<close> does on POSIX when the wait of 60 seconds times out: after the
  \<open>SIGTERM\<close> to the process group and the wait, one \<open>SIGKILL\<close> to the child process;
  it fails with \<open>ServerNotRunningError\<close> and the manager is the one that a refresh
  computes.
\<close>

lemma stop_posix_timeout:
  assumes "process m = Some p" and "poll (enter se) = None"
    and "\<not> signal_raises se" and "wait60 se = None"
  shows "stop False se m =
           (Inl ServerNotRunningError, refresh_state_locked None (leave se) m,
            [Killpg p SIGTERM, Wait p 60, Kill p SIGKILL])"
  using assms by (simp add: stop_def terminate_def Let_def)

text \<open>
  C8, on the code. With the child alive, the state \<open>RUNNING\<close> and a wait that times
  out, \<open>stop\<close> on POSIX fails with \<open>ServerNotRunningError\<close> and leaves the handle and
  the state \<open>RUNNING\<close> of the refresh; the forced kill is a \<open>SIGKILL\<close> to the child
  process alone, and no \<open>SIGKILL\<close> goes to the process group.
\<close>

theorem stop_posix_timeout_kills_child_only:
  "stop False ex_stop_timeout ex_running =
     (Inl ServerNotRunningError, ex_running,
      [Killpg 4242 SIGTERM, Wait 4242 60, Kill 4242 SIGKILL])
   \<and> Killpg 4242 SIGKILL \<notin> set (snd (snd (stop False ex_stop_timeout ex_running)))"
  by (simp add: stop_def terminate_def Let_def ex_stop_timeout_def ex_running_def alive_at_def
      refresh_state_locked_def)

subsection \<open>The handle and the cached state\<close>

lemma consistent_refresh: "handle_consistent (refresh_state_locked None e m)"
  by (auto simp: handle_consistent_def refresh_state_locked_def set_state_locked_def Let_def)

lemma consistent_is_running: "handle_consistent (snd (is_running e m))"
  by (auto simp: handle_consistent_def is_running_def refresh_state_locked_def
      set_state_locked_def Let_def)

lemma consistent_get_state: "handle_consistent (snd (get_state e m))"
  by (simp add: get_state_def Let_def consistent_refresh)

lemma consistent_start:
  "handle_consistent m \<Longrightarrow> handle_consistent (fst (snd (start nt spawn fs script_path e m)))"
  by (auto simp: handle_consistent_def start_def set_state_locked_def Let_def split: sum.splits)

lemma consistent_stop: "handle_consistent (fst (snd (stop nt se m)))"
  by (auto simp: stop_def Let_def consistent_refresh split: option.splits sum.splits prod.splits)
     (auto simp: handle_consistent_def set_state_locked_def)

lemma consistent_apply_call: "handle_consistent m \<Longrightarrow> handle_consistent (apply_call c m)"
  by (cases c) (simp_all add: consistent_is_running consistent_get_state consistent_start
      consistent_stop)

lemma consistent_run_calls: "handle_consistent m \<Longrightarrow> handle_consistent (run_calls cs m)"
  unfolding run_calls_def
  by (induction cs arbitrary: m) (simp_all add: consistent_apply_call)

lemma consistent_init: "handle_consistent (init t)"
  by (simp add: handle_consistent_def init_def)

lemma start_spawn_failure:
  assumes "start nt spawn fs script_path e m = (Inl err, m', calls)" and "calls \<noteq> []"
  shows "process m' = None \<and> state m' = STOPPED"
  using assms by (auto simp: start_def set_state_locked_def Let_def split: if_splits sum.splits)

text \<open>
  C10. After every sequence of public operations on a new manager, in whatever
  environments they run and whether they return or raise, the cached state is
  \<open>STOPPED\<close> exactly when no process handle is held. A \<open>start\<close> whose spawn fails
  leaves no handle and the state \<open>STOPPED\<close>, and so does every \<open>is_running\<close>,
  \<open>get_state\<close> and \<open>stop\<close> that finds the process exited.
\<close>

theorem state_stopped_iff_no_handle:
  "(state (run_calls cs (init t)) = STOPPED) = (process (run_calls cs (init t)) = None)
   \<and> (start nt spawn fs script_path e m = (Inl err, m', calls) \<and> calls \<noteq> []
        \<longrightarrow> process m' = None \<and> state m' = STOPPED)
   \<and> (poll e \<noteq> None
        \<longrightarrow> process (snd (is_running e m)) = None \<and> state (snd (is_running e m)) = STOPPED
          \<and> process (snd (get_state e m)) = None \<and> state (snd (get_state e m)) = STOPPED)
   \<and> (poll (enter se) \<noteq> None
        \<longrightarrow> process (fst (snd (stop nt se m))) = None
          \<and> state (fst (snd (stop nt se m))) = STOPPED)"
proof (intro conjI impI)
  have "handle_consistent (run_calls cs (init t))"
    by (rule consistent_run_calls [OF consistent_init])
  then show "(state (run_calls cs (init t)) = STOPPED) = (process (run_calls cs (init t)) = None)"
    by (simp add: handle_consistent_def)
next
  assume a: "start nt spawn fs script_path e m = (Inl err, m', calls) \<and> calls \<noteq> []"
  then show "process m' = None" "state m' = STOPPED"
    using start_spawn_failure [of nt spawn fs script_path e m err m' calls] by simp_all
next
  assume "poll e \<noteq> None"
  then show "process (snd (is_running e m)) = None" "state (snd (is_running e m)) = STOPPED"
    "process (snd (get_state e m)) = None" "state (snd (get_state e m)) = STOPPED"
    by (simp_all add: is_running_dead_clears get_state_dead_clears)
next
  assume "poll (enter se) \<noteq> None"
  then show "process (fst (snd (stop nt se m))) = None" "state (fst (snd (stop nt se m))) = STOPPED"
    using stop_no_live_handle [of m se nt] by simp_all
qed

theorem state_stopped_iff_no_handle_witness:
  "(state (run_calls [Start False ex_spawn ex_fs ex_script (alive_at 100),
                      GetState (alive_at 120), Stop False ex_stop_timeout,
                      IsRunning (exited_at 200),
                      Start False ex_spawn_fails ex_fs ex_script (alive_at 300)] (init 0))
      = STOPPED)
   = (process (run_calls [Start False ex_spawn ex_fs ex_script (alive_at 100),
                      GetState (alive_at 120), Stop False ex_stop_timeout,
                      IsRunning (exited_at 200),
                      Start False ex_spawn_fails ex_fs ex_script (alive_at 300)] (init 0))
      = None)
   \<and> start False ex_spawn_fails ex_fs ex_script (alive_at 300) (init 0)
       = (Inl OSError, init 300,
          [Popen \<lparr>command = [PathStr ex_script], create_new_process_group = False,
                  preexec_setsid = True, cwd = [''srv'']\<rparr>])
   \<and> process (snd (get_state (exited_at 200) ex_running)) = None
   \<and> state (snd (get_state (exited_at 200) ex_running)) = STOPPED
   \<and> process (fst (snd (stop False ex_stop_exited ex_running))) = None
   \<and> state (fst (snd (stop False ex_stop_exited ex_running))) = STOPPED"
proof -
  have sp: "start False ex_spawn_fails ex_fs ex_script (alive_at 300) (init 0)
       = (Inl OSError, init 300,
          [Popen \<lparr>command = [PathStr ex_script], create_new_process_group = False,
                  preexec_setsid = True, cwd = [''srv'']\<rparr>])"
    by (simp add: start_def exists_def ex_fs_def ex_script_def ex_spawn_fails_def alive_at_def
        init_def set_state_locked_def)
  have p1: "poll (exited_at 200) \<noteq> None" and p2: "poll (enter ex_stop_exited) \<noteq> None"
    by (simp_all add: exited_at_def ex_stop_exited_def)
  note th1 = state_stopped_iff_no_handle [where cs = "[Start False ex_spawn ex_fs ex_script (alive_at 100),
                      GetState (alive_at 120), Stop False ex_stop_timeout,
                      IsRunning (exited_at 200),
                      Start False ex_spawn_fails ex_fs ex_script (alive_at 300)]"
        and t = 0 and nt = False and spawn = ex_spawn_fails and fs = ex_fs
        and script_path = ex_script and e = "alive_at 300" and m = "init 0" and err = OSError
        and m' = "init 300"
        and calls = "[Popen \<lparr>command = [PathStr ex_script], create_new_process_group = False,
                  preexec_setsid = True, cwd = [''srv'']\<rparr>]"
        and se = ex_stop_exited]
  note th2 = state_stopped_iff_no_handle [where cs = "[]" and t = 0 and nt = False
        and e = "exited_at 200" and m = ex_running and se = ex_stop_exited]
  have c1: "(state (run_calls [Start False ex_spawn ex_fs ex_script (alive_at 100),
                      GetState (alive_at 120), Stop False ex_stop_timeout,
                      IsRunning (exited_at 200),
                      Start False ex_spawn_fails ex_fs ex_script (alive_at 300)] (init 0))
      = STOPPED)
   = (process (run_calls [Start False ex_spawn ex_fs ex_script (alive_at 100),
                      GetState (alive_at 120), Stop False ex_stop_timeout,
                      IsRunning (exited_at 200),
                      Start False ex_spawn_fails ex_fs ex_script (alive_at 300)] (init 0))
      = None)"
    by (rule th1 [THEN conjunct1])
  have c3: "process (snd (get_state (exited_at 200) ex_running)) = None
      \<and> state (snd (get_state (exited_at 200) ex_running)) = STOPPED"
    using th2 [THEN conjunct2, THEN conjunct2, THEN conjunct1] p1 by blast
  have c4: "process (fst (snd (stop False ex_stop_exited ex_running))) = None
      \<and> state (fst (snd (stop False ex_stop_exited ex_running))) = STOPPED"
    using th2 [THEN conjunct2, THEN conjunct2, THEN conjunct2] p2 by blast
  from c1 sp c3 c4 show ?thesis
    by (intro conjI) (erule conjunct1 conjunct2 | assumption)+
qed

section \<open>Properties of the storage service\<close>

lemma lookup_append:
  "lookup fs (p @ q) = (case lookup fs p of None \<Rightarrow> None | Some n \<Rightarrow> lookup n q)"
proof (induction fs p rule: lookup.induct)
  case (1 n)
  then show ?case by simp
next
  case (2 x xs)
  then show ?case by simp
next
  case (3 es x xs)
  then show ?case by (cases "map_of es x") simp_all
qed

lemma lookup_snoc:
  "lookup fs (p @ [x]) =
     (case lookup fs p of Some (Dir es) \<Rightarrow> map_of es x | _ \<Rightarrow> None)"
  by (simp add: lookup_append split: option.splits node.splits)

lemma exists_snoc_is_dir: "exists fs (p @ [x]) \<Longrightarrow> is_dir fs p"
  by (auto simp: exists_def is_dir_def lookup_snoc split: option.splits node.splits)

lemma lookup_put_same:
  "is_dir fs (butlast p) \<Longrightarrow> p \<noteq> [] \<Longrightarrow> lookup (put fs p v) p = Some v"
proof (induction fs p v rule: put.induct)
  case (1 n v)
  then show ?case by simp
next
  case (2 x xs v)
  then show ?case by (simp add: is_dir_def split: if_splits)
next
  case (3 es x v)
  then show ?case by (simp add: update_conv')
next
  case (4 es x y ys v)
  then show ?case
    by (cases "map_of es x") (simp_all add: is_dir_def update_conv')
qed

lemma is_dir_put_snoc:
  "is_dir fs p \<Longrightarrow> is_dir (put fs (p @ [x]) v) p"
proof (induction fs p arbitrary: x v rule: lookup.induct)
  case (1 n)
  then show ?case by (cases n) (simp_all add: is_dir_def)
next
  case (2 y ys)
  then show ?case by (simp add: is_dir_def)
next
  case (3 es y ys)
  then show ?case
    by (cases "map_of es y"; cases ys) (simp_all add: is_dir_def update_conv')
qed

lemma os_mkdir_exists: "exists fs p \<Longrightarrow> os_mkdir fs p = Inl EEXIST"
proof (cases p rule: rev_cases)
  case Nil
  then show ?thesis by (simp add: os_mkdir_def)
next
  case (snoc q x)
  assume "exists fs p"
  with snoc show ?thesis
    by (auto simp: os_mkdir_def exists_def lookup_snoc split: option.splits node.splits)
qed

lemma is_dir_exists: "is_dir fs p \<Longrightarrow> exists fs p"
  by (auto simp: is_dir_def exists_def split: option.splits)

lemma mkdir_is_dir: "is_dir fs p \<Longrightarrow> mkdir parents True fs p = Inr fs"
  by (simp add: mkdir.simps [of parents True fs p] os_mkdir_exists is_dir_exists)

lemma os_mkdir_fresh:
  "is_dir fs p \<Longrightarrow> \<not> exists fs (p @ [x]) \<Longrightarrow>
     os_mkdir fs (p @ [x]) = Inr (put fs (p @ [x]) (Dir []))"
  by (auto simp: os_mkdir_def exists_def is_dir_def lookup_snoc split: option.splits node.splits)

lemma os_mkdir_Inr:
  "os_mkdir fs p = Inr fs' \<Longrightarrow>
     fs' = put fs p (Dir []) \<and> p \<noteq> [] \<and> is_dir fs (butlast p) \<and> \<not> exists fs p"
proof (cases p rule: rev_cases)
  case Nil
  assume "os_mkdir fs p = Inr fs'"
  with Nil show ?thesis by (simp add: os_mkdir_def)
next
  case (snoc q x)
  assume "os_mkdir fs p = Inr fs'"
  with snoc show ?thesis
    by (auto simp: os_mkdir_def exists_def is_dir_def lookup_snoc
             split: option.splits node.splits if_splits)
qed

lemma os_mkdir_is_dir: "os_mkdir fs p = Inr fs' \<Longrightarrow> is_dir fs' p"
  using os_mkdir_Inr [of fs p fs'] lookup_put_same [of fs p "Dir []"]
  by (simp add: is_dir_def)

lemma mkdir_result_is_dir: "mkdir parents exist_ok fs p = Inr fs' \<Longrightarrow> is_dir fs' p"
proof (induction parents exist_ok fs p arbitrary: fs' rule: mkdir.induct)
  case (1 parents exist_ok fs p)
  show ?case
  proof (cases "os_mkdir fs p")
    case (Inr a)
    with "1.prems" show ?thesis
      by (simp add: mkdir.simps [of parents exist_ok fs p] os_mkdir_is_dir)
  next
    case (Inl e)
    show ?thesis
    proof (cases "e = ENOENT")
      case True
      with Inl "1.prems" obtain fs1 where
        a: "parents" "p \<noteq> []" "mkdir True True fs (butlast p) = Inr fs1"
           "mkdir False exist_ok fs1 p = Inr fs'"
        by (auto simp: mkdir.simps [of parents exist_ok fs p] split: if_splits sum.splits)
      from Inl True a show ?thesis
        using "1.IH"(2) [of e fs1 fs'] by simp
    next
      case False
      with Inl "1.prems" show ?thesis
        by (cases e) (auto simp: mkdir.simps [of parents exist_ok fs p] split: if_splits)
    qed
  qed
qed

lemma split_sep_single: "CHR ''/'' \<notin> set s \<Longrightarrow> split_sep s = [s]"
  by (induction s) auto

lemma joinpath_single:
  assumes "CHR ''/'' \<notin> set s" and "s \<noteq> []" and "s \<noteq> ''.''"
  shows "joinpath p s = p @ [s]"
proof -
  from assms(2) obtain c cs where s: "s = c # cs" by (cases s) auto
  with assms(1) have "c \<noteq> CHR ''/''" by auto
  moreover have "components s = [s]"
    using assms by (simp add: components_def split_sep_single)
  ultimately show ?thesis
    unfolding joinpath_def s by simp
qed

lemma digit_char_in: "digit_char k \<in> set ''0123456789''"
  unfolding digit_char_def by (rule nth_mem) simp

lemma digit_char_no_sep: "digit_char k \<noteq> CHR ''/''" "CHR ''/'' \<noteq> digit_char k"
  using digit_char_in [of k] by auto

lemma strftime_name:
  "CHR ''/'' \<notin> set (strftime d) \<and> strftime d \<noteq> [] \<and> strftime d \<noteq> ''.''"
  by (simp add: strftime_def digit_char_no_sep)

lemma joinpath_strftime: "joinpath base (strftime d) = base @ [strftime d]"
  using strftime_name [of d] by (intro joinpath_single) simp_all

lemma mkdir_fresh:
  assumes "is_dir fs p" and "\<not> exists fs (p @ [x])"
  shows "mkdir False False fs (p @ [x]) = Inr (put fs (p @ [x]) (Dir []))"
  using os_mkdir_fresh [OF assms] by (simp add: mkdir.simps [of False False fs "p @ [x]"])

lemma prepare_fresh:
  assumes "mkdir True True fs base_directory = Inr fs1"
    and "\<not> exists fs1 (joinpath base_directory (strftime d))"
  shows "prepare_daily_directory base_directory d fs =
           (Inr (Some (joinpath base_directory (strftime d))),
            put fs1 (joinpath base_directory (strftime d)) (Dir []))"
proof -
  have "is_dir fs1 base_directory"
    using assms(1) by (rule mkdir_result_is_dir)
  then have "mkdir False False fs1 (base_directory @ [strftime d]) =
               Inr (put fs1 (base_directory @ [strftime d]) (Dir []))"
    using assms(2) unfolding joinpath_strftime by (rule mkdir_fresh)
  with assms show ?thesis
    by (simp add: prepare_daily_directory_def joinpath_strftime Let_def)
qed

lemma prepare_existing:
  assumes "is_dir fs (joinpath base_directory (strftime d))"
  shows "prepare_daily_directory base_directory d fs = (Inr None, fs)"
proof -
  have e: "exists fs (base_directory @ [strftime d])"
    using assms unfolding joinpath_strftime by (rule is_dir_exists)
  then have "is_dir fs base_directory" by (rule exists_snoc_is_dir)
  then have "mkdir True True fs base_directory = Inr fs" by (rule mkdir_is_dir)
  with assms e show ?thesis
    by (simp add: prepare_daily_directory_def joinpath_strftime Let_def)
qed

lemma is_dir_put_new:
  assumes "is_dir fs p"
  shows "is_dir (put fs (p @ [x]) (Dir [])) (p @ [x])"
  using lookup_put_same [of fs "p @ [x]" "Dir []"] assms by (simp add: is_dir_def)

text \<open>
  C1. When the backup root can be ensured and the directory of the date \<open>D\<close> does
  not exist under it, \<open>prepare_daily_directory\<close> creates that directory and returns
  its path; a second call on the resulting filesystem returns \<open>None\<close> and leaves the
  filesystem, with the directory in it, as it is.
\<close>

theorem prepare_daily_directory_twice:
  assumes "mkdir True True fs base_directory = Inr fs1"
    and "\<not> exists fs1 (joinpath base_directory (strftime D))"
  shows "\<exists>fs2. prepare_daily_directory base_directory D fs =
                 (Inr (Some (joinpath base_directory (strftime D))), fs2)
               \<and> is_dir fs2 (joinpath base_directory (strftime D))
               \<and> prepare_daily_directory base_directory D fs2 = (Inr None, fs2)"
proof -
  let ?t = "joinpath base_directory (strftime D)"
  have "is_dir fs1 base_directory"
    using assms(1) by (rule mkdir_result_is_dir)
  then have d: "is_dir (put fs1 ?t (Dir [])) ?t"
    unfolding joinpath_strftime by (rule is_dir_put_new)
  have a: "prepare_daily_directory base_directory D fs = (Inr (Some ?t), put fs1 ?t (Dir []))"
    using assms by (rule prepare_fresh)
  have b: "prepare_daily_directory base_directory D (put fs1 ?t (Dir [])) =
             (Inr None, put fs1 ?t (Dir []))"
    using d by (rule prepare_existing)
  from a d b show ?thesis by blast
qed

lemma ex_strftime: "strftime ex_today = ''2024-01-10''"
  by (simp add: strftime_def ex_today_def digit_char_def)

lemma ex_mkdir_root:
  "mkdir True True (Dir []) [''backups''] = Inr (Dir [(''backups'', Dir [])])"
  by (simp add: mkdir.simps [of True True "Dir []" "[''backups'']"] os_mkdir_def)

theorem prepare_daily_directory_twice_witness:
  "mkdir True True (Dir []) [''backups''] = Inr (Dir [(''backups'', Dir [])])
   \<and> \<not> exists (Dir [(''backups'', Dir [])]) (joinpath [''backups''] (strftime ex_today))
   \<and> (\<exists>fs2. prepare_daily_directory [''backups''] ex_today (Dir []) =
                 (Inr (Some [''backups'', ''2024-01-10'']), fs2)
               \<and> is_dir fs2 [''backups'', ''2024-01-10'']
               \<and> prepare_daily_directory [''backups''] ex_today fs2 = (Inr None, fs2))"
proof -
  have j: "joinpath [''backups''] (strftime ex_today) = [''backups'', ''2024-01-10'']"
    by (simp add: joinpath_def components_def ex_strftime)
  have h: "\<not> exists (Dir [(''backups'', Dir [])]) (joinpath [''backups''] (strftime ex_today))"
    unfolding j by (simp add: exists_def)
  note th = prepare_daily_directory_twice [OF ex_mkdir_root h, unfolded j]
  from ex_mkdir_root h th show ?thesis by blast
qed

lemma exists_prefix: "exists fs q \<Longrightarrow> prefix p q \<Longrightarrow> exists fs p"
  by (auto simp: exists_def prefix_def lookup_append split: option.splits)

lemma lookup_del_under:
  "p \<noteq> [] \<Longrightarrow> lookup (del fs p) (p @ r) = None"
proof (induction fs p rule: del.induct)
  case (1 n)
  then show ?case by simp
next
  case (2 x xs)
  then show ?case by simp
next
  case (3 es x)
  then show ?case by (simp add: delete_conv')
next
  case (4 es x y ys)
  then show ?case by (cases "map_of es x") (simp_all add: update_conv')
qed

lemma lookup_del_other:
  "\<not> prefix p q \<Longrightarrow> \<not> prefix q p \<Longrightarrow> lookup (del fs p) q = lookup fs q"
proof (induction fs p arbitrary: q rule: del.induct)
  case (1 n)
  then show ?case by simp
next
  case (2 x xs)
  then show ?case by simp
next
  case (3 es x)
  then show ?case by (cases q) (simp_all add: delete_conv')
next
  case (4 es x y ys)
  show ?case
  proof (cases q)
    case Nil
    with 4 show ?thesis by simp
  next
    case (Cons z zs)
    show ?thesis
    proof (cases "map_of es x")
      case None
      then show ?thesis by simp
    next
      case (Some c)
      with 4 Cons show ?thesis by (simp add: update_conv')
    qed
  qed
qed

lemma is_dir_del:
  "\<not> prefix p q \<Longrightarrow> is_dir (del fs p) q = is_dir fs q"
proof (induction fs p arbitrary: q rule: del.induct)
  case (1 n)
  then show ?case by simp
next
  case (2 x xs)
  then show ?case by simp
next
  case (3 es x)
  then show ?case by (cases q) (simp_all add: is_dir_def delete_conv')
next
  case (4 es x y ys)
  show ?case
  proof (cases q)
    case Nil
    then show ?thesis by (cases "map_of es x") (simp_all add: is_dir_def)
  next
    case (Cons z zs)
    show ?thesis
    proof (cases "map_of es x")
      case None
      then show ?thesis by simp
    next
      case (Some c)
      with 4 Cons show ?thesis by (auto simp: update_conv' is_dir_def)
    qed
  qed
qed

lemma lookup_put_other:
  "\<not> prefix p q \<Longrightarrow> \<not> prefix q p \<Longrightarrow> lookup (put fs p v) q = lookup fs q"
proof (induction fs p v arbitrary: q rule: put.induct)
  case (1 n v)
  then show ?case by simp
next
  case (2 x xs v)
  then show ?case by simp
next
  case (3 es x v)
  then show ?case by (cases q) (simp_all add: update_conv')
next
  case (4 es x y ys v)
  show ?case
  proof (cases q)
    case Nil
    with 4 show ?thesis by simp
  next
    case (Cons z zs)
    show ?thesis
    proof (cases "map_of es x")
      case None
      then show ?thesis by simp
    next
      case (Some c)
      with 4 Cons show ?thesis by (simp add: update_conv')
    qed
  qed
qed

lemma lookup_prefix_is_dir:
  assumes "lookup fs p = Some n" and "prefix q p" and "q \<noteq> p"
  shows "is_dir fs q"
proof -
  from assms(2) obtain zs where zs: "p = q @ zs" by (auto simp: prefix_def)
  with assms(3) have "zs \<noteq> []" by auto
  then obtain x r where "zs = x # r" by (cases zs) auto
  with zs have pre: "prefix (q @ [x]) p" by simp
  from assms(1) have "exists fs p" by (simp add: exists_def)
  then have "exists fs (q @ [x])" using pre by (rule exists_prefix)
  then show ?thesis by (rule exists_snoc_is_dir)
qed

lemma no_file_on_the_way:
  assumes "is_dir fs p"
  shows "\<not> list_ex (\<lambda>q. lookup fs q = Some File) (prefixes p)"
proof -
  from assms obtain es where p: "lookup fs p = Some (Dir es)"
    by (auto simp: is_dir_def split: option.splits node.splits)
  have "lookup fs q \<noteq> Some File" if "prefix q p" for q
  proof (cases "q = p")
    case True
    with p show ?thesis by simp
  next
    case False
    with p that have "is_dir fs q" by (rule lookup_prefix_is_dir)
    then show ?thesis by (auto simp: is_dir_def)
  qed
  then show ?thesis by (auto simp: list_ex_iff)
qed

lemma file_on_the_way_snoc:
  "list_ex (\<lambda>q. lookup fs q = Some File) (prefixes (p @ [x])) =
     (list_ex (\<lambda>q. lookup fs q = Some File) (prefixes p) \<or> lookup fs (p @ [x]) = Some File)"
  by simp

lemma makedirs_unfold:
  assumes "p \<noteq> []"
    and "(if butlast p \<noteq> [] \<and> \<not> exists fs (butlast p) then makedirs fs (butlast p)
          else (None, fs)) = (r, fs0)"
  shows "makedirs fs p =
           (if r \<noteq> None \<and> r \<noteq> Some EEXIST then (r, fs0)
            else (case os_mkdir fs0 p of
                    Inl e \<Rightarrow> (Some e, fs0)
                  | Inr fs2 \<Rightarrow> (None, fs2)))"
  by (subst makedirs.simps, unfold assms(2), simp add: assms(1))

lemma makedirs_root: "makedirs fs [] = (Some EEXIST, fs)"
  by (subst makedirs.simps) simp

lemma makedirs_parent_there:
  assumes "q = [] \<or> exists fs q"
  shows "makedirs fs (q @ [x]) =
           (case os_mkdir fs (q @ [x]) of
              Inl e \<Rightarrow> (Some e, fs)
            | Inr fs2 \<Rightarrow> (None, fs2))"
proof -
  have "(if butlast (q @ [x]) \<noteq> [] \<and> \<not> exists fs (butlast (q @ [x]))
         then makedirs fs (butlast (q @ [x])) else (None, fs)) = (None, fs)"
    using assms by auto
  then show ?thesis
    using makedirs_unfold [of "q @ [x]" fs None fs] by simp
qed

lemma makedirs_parent_missing:
  assumes "q \<noteq> []" and "\<not> exists fs q" and "makedirs fs q = (r, fs0)"
  shows "makedirs fs (q @ [x]) =
           (if r \<noteq> None \<and> r \<noteq> Some EEXIST then (r, fs0)
            else (case os_mkdir fs0 (q @ [x]) of
                    Inl e \<Rightarrow> (Some e, fs0)
                  | Inr fs2 \<Rightarrow> (None, fs2)))"
proof -
  have "(if butlast (q @ [x]) \<noteq> [] \<and> \<not> exists fs (butlast (q @ [x]))
         then makedirs fs (butlast (q @ [x])) else (None, fs)) = (r, fs0)"
    using assms by simp
  then show ?thesis
    using makedirs_unfold [of "q @ [x]" fs r fs0] by simp
qed

lemma makedirs_made:
  assumes "makedirs fs p = (None, fs1)"
  shows "lookup fs1 p = Some (Dir [])"
proof -
  from assms have "p \<noteq> []" by (auto simp: makedirs_root)
  obtain r fs0 where pre:
    "(if butlast p \<noteq> [] \<and> \<not> exists fs (butlast p) then makedirs fs (butlast p)
      else (None, fs)) = (r, fs0)"
    by (rule prod.exhaust)
  have "os_mkdir fs0 p = Inr fs1"
    using assms unfolding makedirs_unfold [OF \<open>p \<noteq> []\<close> pre]
    by (cases "os_mkdir fs0 p") (simp_all split: if_splits)
  then show ?thesis
    using os_mkdir_Inr [of fs0 p fs1] lookup_put_same [of fs0 p "Dir []"] by simp
qed

lemma os_mkdir_in_made:
  assumes "lookup fs q = Some (Dir [])"
  shows "os_mkdir fs (q @ [x]) = Inr (put fs (q @ [x]) (Dir []))"
proof (rule os_mkdir_fresh)
  show "is_dir fs q" using assms by (simp add: is_dir_def)
  show "\<not> exists fs (q @ [x])" using assms by (simp add: exists_def lookup_snoc)
qed

lemma makedirs_failed:
  "makedirs fs p = (Some e, fs1) \<Longrightarrow> fs1 = fs"
proof (induction fs p arbitrary: e fs1 rule: makedirs.induct)
  case (1 fs p)
  show ?case
  proof (cases p rule: rev_cases)
    case Nil
    with "1.prems" show ?thesis by (simp add: makedirs_root)
  next
    case (snoc q x)
    show ?thesis
    proof (cases "q \<noteq> [] \<and> \<not> exists fs q")
      case False
      then have "q = [] \<or> exists fs q" by blast
      from "1.prems" show ?thesis
        unfolding snoc makedirs_parent_there [OF \<open>q = [] \<or> exists fs q\<close>]
        by (cases "os_mkdir fs (q @ [x])") simp_all
    next
      case True
      obtain r fs0 where m: "makedirs fs q = (r, fs0)" by (rule prod.exhaust)
      note step = makedirs_parent_missing [OF True [THEN conjunct1] True [THEN conjunct2] m]
      show ?thesis
      proof (cases r)
        case None
        with m have "lookup fs0 q = Some (Dir [])" by (simp add: makedirs_made)
        then have "os_mkdir fs0 (q @ [x]) = Inr (put fs0 (q @ [x]) (Dir []))"
          by (rule os_mkdir_in_made)
        with "1.prems" None show ?thesis
          unfolding snoc step by simp
      next
        case (Some e0)
        have "fs0 = fs"
          using "1.IH" [of e0 fs0] m Some snoc True by simp
        with "1.prems" Some show ?thesis
          unfolding snoc step
          by (cases "os_mkdir fs (q @ [x])") (simp_all split: if_splits)
      qed
    qed
  qed
qed

lemma makedirs_succeeds:
  "\<not> exists fs p \<Longrightarrow>
     (fst (makedirs fs p) = None) =
     (\<not> list_ex (\<lambda>q. lookup fs q = Some File) (prefixes (butlast p)))"
proof (induction fs p rule: makedirs.induct)
  case (1 fs p)
  from "1.prems" have "p \<noteq> []" by (auto simp: exists_def)
  then obtain q x where p: "p = q @ [x]" by (cases p rule: rev_cases) auto
  show ?case
  proof (cases "q \<noteq> [] \<and> \<not> exists fs q")
    case False
    then have there: "q = [] \<or> exists fs q" by blast
    note run = makedirs_parent_there [OF there, of x]
    from there have "exists fs q" by (auto simp: exists_def)
    then obtain n where n: "lookup fs q = Some n" by (auto simp: exists_def)
    show ?thesis
    proof (cases n)
      case File
      with n have "list_ex (\<lambda>r. lookup fs r = Some File) (prefixes q)"
        by (auto simp: list_ex_iff)
      moreover have "os_mkdir fs (q @ [x]) = Inl ENOTDIR"
        using n File by (simp add: os_mkdir_def)
      ultimately show ?thesis unfolding p run by simp
    next
      case (Dir es)
      with n have d: "is_dir fs q" by (simp add: is_dir_def)
      then have "\<not> list_ex (\<lambda>r. lookup fs r = Some File) (prefixes q)"
        by (rule no_file_on_the_way)
      moreover have "os_mkdir fs (q @ [x]) = Inr (put fs (q @ [x]) (Dir []))"
        using d "1.prems" [unfolded p] by (rule os_mkdir_fresh)
      ultimately show ?thesis unfolding p run by simp
    qed
  next
    case True
    then obtain q' y where q: "q = q' @ [y]" by (cases q rule: rev_cases) auto
    from True have nq: "lookup fs q = None" by (simp add: exists_def)
    have way: "list_ex (\<lambda>r. lookup fs r = Some File) (prefixes q) =
               list_ex (\<lambda>r. lookup fs r = Some File) (prefixes (butlast q))"
      using nq unfolding q by simp
    have ih: "(fst (makedirs fs q) = None) =
              (\<not> list_ex (\<lambda>r. lookup fs r = Some File) (prefixes (butlast q)))"
      using "1.IH" p True by simp
    obtain r fs0 where m: "makedirs fs q = (r, fs0)" by (rule prod.exhaust)
    note step = makedirs_parent_missing [OF True [THEN conjunct1] True [THEN conjunct2] m, of x]
    show ?thesis
    proof (cases r)
      case None
      with m have "lookup fs0 q = Some (Dir [])" by (simp add: makedirs_made)
      then have "os_mkdir fs0 (q @ [x]) = Inr (put fs0 (q @ [x]) (Dir []))"
        by (rule os_mkdir_in_made)
      with None have "fst (makedirs fs (q @ [x])) = None"
        unfolding step by simp
      moreover from ih m None have
        "\<not> list_ex (\<lambda>r. lookup fs r = Some File) (prefixes (butlast q))" by simp
      ultimately show ?thesis unfolding p using way by simp
    next
      case (Some e0)
      with m have "fs0 = fs" by (simp add: makedirs_failed)
      moreover have "os_mkdir fs (q @ [x]) = Inl ENOENT \<or> os_mkdir fs (q @ [x]) = Inl ENOTDIR"
        using nq by (simp add: os_mkdir_def)
      ultimately have "fst (makedirs fs (q @ [x])) \<noteq> None"
        using Some unfolding step by auto
      moreover from ih m Some have
        "list_ex (\<lambda>r. lookup fs r = Some File) (prefixes (butlast q))" by simp
      ultimately show ?thesis unfolding p using way by simp
    qed
  qed
qed

lemma move_refused:
  assumes "exists fs dst \<or> prefix src dst \<or> file_on_the_way fs (butlast dst)
           \<or> (\<not> is_dir fs (butlast dst) \<and> lookup fs src = Some File)"
  shows "\<exists>e. move fs src dst = (Inl e, fs)"
proof (cases "lookup fs src")
  case None
  then show ?thesis by (simp add: move_def)
next
  case (Some n)
  show ?thesis
  proof (cases "src = [] \<or> dst = [] \<or> exists fs dst \<or> prefix src dst")
    case True
    with Some show ?thesis by (auto simp: move_def)
  next
    case False
    with assms have nd: "\<not> is_dir fs (butlast dst)"
      using no_file_on_the_way [of fs "butlast dst"] by (auto simp: file_on_the_way_def)
    show ?thesis
    proof (cases n)
      case File
      with Some False nd show ?thesis by (simp add: move_def)
    next
      case (Dir es)
      with Some False assms have way: "file_on_the_way fs (butlast dst)" by auto
      from False have "\<not> exists fs dst" by simp
      with way have "fst (makedirs fs dst) \<noteq> None"
        by (simp add: makedirs_succeeds file_on_the_way_def)
      then obtain e fs1 where m: "makedirs fs dst = (Some e, fs1)"
        by (cases "makedirs fs dst") auto
      then have "fs1 = fs" by (rule makedirs_failed)
      with Some False nd Dir m show ?thesis by (simp add: move_def)
    qed
  qed
qed

lemma move_done:
  assumes src: "lookup fs src = Some n"
    and ne: "\<not> exists fs dst"
    and np: "\<not> prefix src dst"
    and way: "\<not> file_on_the_way fs (butlast dst)"
    and kind: "is_dir fs (butlast dst) \<or> n \<noteq> File"
  shows "\<exists>fs'. move fs src dst = (Inr dst, fs') \<and> lookup fs' dst = Some n
               \<and> \<not> exists fs' src"
proof -
  have e: "exists fs src" using src by (simp add: exists_def)
  have a: "src \<noteq> []" using np by auto
  have d: "dst \<noteq> []" using ne by (auto simp: exists_def)
  have p2: "\<not> prefix dst src" using exists_prefix [OF e, of dst] ne by blast
  have gone: "lookup (del fs0 src) src = None" for fs0
    using lookup_del_under [OF a, of fs0 "[]"] by simp
  show ?thesis
  proof (cases "is_dir fs (butlast dst)")
    case True
    have m: "move fs src dst = (Inr dst, put (del fs src) dst n)"
      using src a d ne np True by (simp add: move_def)
    have "\<not> prefix src (butlast dst)"
      using np prefix_order.trans [OF _ prefixeq_butlast, of src dst] by blast
    then have "is_dir (del fs src) (butlast dst)" using True by (simp add: is_dir_del)
    then have l: "lookup (put (del fs src) dst n) dst = Some n"
      using d by (simp add: lookup_put_same)
    have "lookup (put (del fs src) dst n) src = lookup (del fs src) src"
      using p2 np by (rule lookup_put_other)
    then have "\<not> exists (put (del fs src) dst n) src" by (simp add: exists_def gone)
    with m l show ?thesis by blast
  next
    case False
    with kind obtain es where n: "n = Dir es" by (cases n) auto
    from ne way have "fst (makedirs fs dst) = None"
      by (simp add: makedirs_succeeds file_on_the_way_def)
    then obtain fs1 where mk: "makedirs fs dst = (None, fs1)"
      by (cases "makedirs fs dst") auto
    have m: "move fs src dst = (Inr dst, del (put fs1 dst n) src)"
      using src a d ne np False n mk by (simp add: move_def)
    from mk have "lookup fs1 dst = Some (Dir [])" by (rule makedirs_made)
    then have "exists fs1 (butlast dst @ [last dst])" using d by (simp add: exists_def)
    then have "is_dir fs1 (butlast dst)" by (rule exists_snoc_is_dir)
    then have "lookup (put fs1 dst n) dst = Some n" using d by (simp add: lookup_put_same)
    moreover have "lookup (del (put fs1 dst n) src) dst = lookup (put fs1 dst n) dst"
      using np p2 by (rule lookup_del_other)
    ultimately have l: "lookup (del (put fs1 dst n) src) dst = Some n" by simp
    have "\<not> exists (del (put fs1 dst n) src) src" by (simp add: exists_def gone)
    with m l show ?thesis by blast
  qed
qed

lemma store_archive_fails:
  assumes "\<not> exists fs archive_path \<or> \<not> is_dir fs destination_dir
           \<or> exists fs (joinpath destination_dir filename)
           \<or> prefix archive_path (joinpath destination_dir filename)
           \<or> file_on_the_way fs (butlast (joinpath destination_dir filename))
           \<or> (\<not> is_dir fs (butlast (joinpath destination_dir filename))
               \<and> lookup fs archive_path = Some File)"
  shows "store_archive archive_path destination_dir filename fs = (Inl BackupStorageError, fs)"
proof (cases "\<not> exists fs archive_path \<or> \<not> is_dir fs destination_dir
              \<or> exists fs (joinpath destination_dir filename)")
  case True
  then show ?thesis by (auto simp: store_archive_def Let_def)
next
  case False
  with assms have "\<exists>e. move fs archive_path (joinpath destination_dir filename) = (Inl e, fs)"
    by (intro move_refused) blast
  then obtain e where
    "move fs archive_path (joinpath destination_dir filename) = (Inl e, fs)" ..
  with False show ?thesis
    using is_dir_exists [of fs destination_dir] by (simp add: store_archive_def Let_def)
qed

lemma store_archive_moves:
  assumes "lookup fs archive_path = Some archive"
    and "is_dir fs destination_dir"
    and "\<not> exists fs (joinpath destination_dir filename)"
    and "\<not> prefix archive_path (joinpath destination_dir filename)"
    and "\<not> file_on_the_way fs (butlast (joinpath destination_dir filename))"
    and "is_dir fs (butlast (joinpath destination_dir filename)) \<or> archive \<noteq> File"
  shows "\<exists>fs'. store_archive archive_path destination_dir filename fs =
                 (Inr (joinpath destination_dir filename), fs')
               \<and> lookup fs' (joinpath destination_dir filename) = Some archive
               \<and> \<not> exists fs' archive_path"
proof -
  from move_done [OF assms(1) assms(3) assms(4) assms(5) assms(6)]
  obtain fs' where m: "move fs archive_path (joinpath destination_dir filename) =
                         (Inr (joinpath destination_dir filename), fs')"
    and l: "lookup fs' (joinpath destination_dir filename) = Some archive"
    and g: "\<not> exists fs' archive_path"
    by blast
  have "store_archive archive_path destination_dir filename fs =
          (Inr (joinpath destination_dir filename), fs')"
    using assms(1,2,3) m is_dir_exists [OF assms(2)]
    by (simp add: store_archive_def Let_def exists_def)
  with l g show ?thesis by blast
qed

text \<open>
  C4, as claimed, fails: the archive path exists, the destination is a directory and
  nothing exists at the destination name, yet \<open>store_archive\<close> raises
  \<open>BackupStorageError\<close>, because the archive path is a directory that holds the
  destination and the move into itself fails.
\<close>

theorem store_archive_into_itself:
  "exists ex_disk_backed_up [''backups'']
   \<and> is_dir ex_disk_backed_up [''backups'', ''2024-01-10'']
   \<and> \<not> exists ex_disk_backed_up (joinpath [''backups'', ''2024-01-10''] ''second.zip'')
   \<and> store_archive [''backups''] [''backups'', ''2024-01-10''] ''second.zip''
         ex_disk_backed_up = (Inl BackupStorageError, ex_disk_backed_up)"
  by (simp add: store_archive_def move_def exists_def is_dir_def joinpath_def components_def
        ex_disk_backed_up_def)

text \<open>
  C4, amended. For a file name without a component \<^verbatim>\<open>..\<close> and without a null byte,
  \<open>store_archive\<close> raises \<open>BackupStorageError\<close> and leaves the filesystem as it is
  when the archive path does not exist, when the destination is not a directory, when
  something exists at the destination name, and when the move fails: the archive path
  is the destination directory or holds it, a regular file is on the way to the
  destination name, or the directory that should hold the destination name is
  missing and the archive is a regular file. In every other case it returns the
  destination name, where the node of the archive path now is, and the archive path
  does not exist any more.
\<close>

theorem store_archive_outcome:
  assumes "plain_name filename"
  shows
    "(\<not> exists fs archive_path \<or> \<not> is_dir fs destination_dir
        \<or> exists fs (joinpath destination_dir filename)
        \<or> prefix archive_path (joinpath destination_dir filename)
        \<or> file_on_the_way fs (butlast (joinpath destination_dir filename))
        \<or> (\<not> is_dir fs (butlast (joinpath destination_dir filename))
            \<and> lookup fs archive_path = Some File) \<longrightarrow>
        store_archive archive_path destination_dir filename fs = (Inl BackupStorageError, fs))
     \<and> (lookup fs archive_path = Some archive \<and> is_dir fs destination_dir
          \<and> \<not> exists fs (joinpath destination_dir filename)
          \<and> \<not> prefix archive_path (joinpath destination_dir filename)
          \<and> \<not> file_on_the_way fs (butlast (joinpath destination_dir filename))
          \<and> (is_dir fs (butlast (joinpath destination_dir filename)) \<or> archive \<noteq> File) \<longrightarrow>
          (\<exists>fs'. store_archive archive_path destination_dir filename fs =
                   (Inr (joinpath destination_dir filename), fs')
                 \<and> lookup fs' (joinpath destination_dir filename) = Some archive
                 \<and> \<not> exists fs' archive_path))"
proof (intro conjI impI)
  assume "\<not> exists fs archive_path \<or> \<not> is_dir fs destination_dir
        \<or> exists fs (joinpath destination_dir filename)
        \<or> prefix archive_path (joinpath destination_dir filename)
        \<or> file_on_the_way fs (butlast (joinpath destination_dir filename))
        \<or> (\<not> is_dir fs (butlast (joinpath destination_dir filename))
            \<and> lookup fs archive_path = Some File)"
  then show "store_archive archive_path destination_dir filename fs =
               (Inl BackupStorageError, fs)"
    by (rule store_archive_fails)
next
  assume a: "lookup fs archive_path = Some archive \<and> is_dir fs destination_dir
          \<and> \<not> exists fs (joinpath destination_dir filename)
          \<and> \<not> prefix archive_path (joinpath destination_dir filename)
          \<and> \<not> file_on_the_way fs (butlast (joinpath destination_dir filename))
          \<and> (is_dir fs (butlast (joinpath destination_dir filename)) \<or> archive \<noteq> File)"
  show "\<exists>fs'. store_archive archive_path destination_dir filename fs =
                   (Inr (joinpath destination_dir filename), fs')
                 \<and> lookup fs' (joinpath destination_dir filename) = Some archive
                 \<and> \<not> exists fs' archive_path"
    using a by (intro store_archive_moves) simp_all
qed

theorem store_archive_outcome_witness:
  "plain_name ''world.zip'' \<and> plain_name ''sub/world.zip''
   \<and> exists ex_disk_backed_up (joinpath [''backups'', ''2024-01-10''] ''world.zip'')
   \<and> store_archive ex_script [''backups'', ''2024-01-10''] ''world.zip'' ex_disk_backed_up =
       (Inl BackupStorageError, ex_disk_backed_up)
   \<and> \<not> is_dir ex_disk_zipped (butlast (joinpath [''backups'', ''2024-01-10''] ''sub/world.zip''))
   \<and> store_archive ex_tmp [''backups'', ''2024-01-10''] ''sub/world.zip'' ex_disk_zipped =
       (Inl BackupStorageError, ex_disk_zipped)
   \<and> lookup ex_disk_zipped ex_tmp = Some File
   \<and> is_dir ex_disk_zipped [''backups'', ''2024-01-10'']
   \<and> \<not> exists ex_disk_zipped (joinpath [''backups'', ''2024-01-10''] ''world.zip'')
   \<and> \<not> prefix ex_tmp (joinpath [''backups'', ''2024-01-10''] ''world.zip'')
   \<and> \<not> file_on_the_way ex_disk_zipped
         (butlast (joinpath [''backups'', ''2024-01-10''] ''world.zip''))
   \<and> is_dir ex_disk_zipped (butlast (joinpath [''backups'', ''2024-01-10''] ''world.zip''))
   \<and> (\<exists>fs'. store_archive ex_tmp [''backups'', ''2024-01-10''] ''world.zip'' ex_disk_zipped =
                 (Inr (joinpath [''backups'', ''2024-01-10''] ''world.zip''), fs')
               \<and> lookup fs' (joinpath [''backups'', ''2024-01-10''] ''world.zip'') = Some File
               \<and> \<not> exists fs' ex_tmp)"
proof -
  have j: "joinpath [''backups'', ''2024-01-10''] ''world.zip'' =
             [''backups'', ''2024-01-10'', ''world.zip'']"
    by (simp add: joinpath_def components_def)
  have js: "joinpath [''backups'', ''2024-01-10''] ''sub/world.zip'' =
             [''backups'', ''2024-01-10'', ''sub'', ''world.zip'']"
    by (simp add: joinpath_def components_def)
  have p1: "plain_name ''world.zip''"
    by (simp add: plain_name_def components_def)
  have p2: "plain_name ''sub/world.zip''"
    by (simp add: plain_name_def components_def)
  have h1: "exists ex_disk_backed_up (joinpath [''backups'', ''2024-01-10''] ''world.zip'')"
    unfolding j by (simp add: exists_def ex_disk_backed_up_def)
  note c1 = store_archive_outcome [where archive_path = ex_script, OF p1, THEN conjunct1,
    THEN mp, OF disjI2 [OF disjI2 [OF disjI1 [OF h1]]]]
  have f: "lookup ex_disk_zipped ex_tmp = Some File"
    by (simp add: ex_disk_zipped_def ex_tmp_def)
  have h2: "\<not> is_dir ex_disk_zipped
              (butlast (joinpath [''backups'', ''2024-01-10''] ''sub/world.zip''))"
    unfolding js by (simp add: is_dir_def ex_disk_zipped_def)
  have h2': "\<not> is_dir ex_disk_zipped
               (butlast (joinpath [''backups'', ''2024-01-10''] ''sub/world.zip''))
             \<and> lookup ex_disk_zipped ex_tmp = Some File"
    using h2 f by (rule conjI)
  note c2 = store_archive_outcome [OF p2, THEN conjunct1, THEN mp,
    OF disjI2 [OF disjI2 [OF disjI2 [OF disjI2 [OF disjI2 [OF h2']]]]]]
  have h3: "is_dir ex_disk_zipped [''backups'', ''2024-01-10'']"
    by (simp add: ex_disk_zipped_def is_dir_def)
  have h4: "\<not> exists ex_disk_zipped (joinpath [''backups'', ''2024-01-10''] ''world.zip'')"
    unfolding j by (simp add: ex_disk_zipped_def exists_def)
  have h5: "\<not> prefix ex_tmp (joinpath [''backups'', ''2024-01-10''] ''world.zip'')"
    unfolding j by (simp add: ex_tmp_def)
  have h6: "is_dir ex_disk_zipped
              (butlast (joinpath [''backups'', ''2024-01-10''] ''world.zip''))"
    unfolding j using h3 by simp
  have h7: "\<not> file_on_the_way ex_disk_zipped
              (butlast (joinpath [''backups'', ''2024-01-10''] ''world.zip''))"
    unfolding file_on_the_way_def using h6 by (rule no_file_on_the_way)
  from f h3 h4 h5 h7 h6 have h:
    "lookup ex_disk_zipped ex_tmp = Some File \<and> is_dir ex_disk_zipped [''backups'', ''2024-01-10'']
     \<and> \<not> exists ex_disk_zipped (joinpath [''backups'', ''2024-01-10''] ''world.zip'')
     \<and> \<not> prefix ex_tmp (joinpath [''backups'', ''2024-01-10''] ''world.zip'')
     \<and> \<not> file_on_the_way ex_disk_zipped
           (butlast (joinpath [''backups'', ''2024-01-10''] ''world.zip''))
     \<and> (is_dir ex_disk_zipped (butlast (joinpath [''backups'', ''2024-01-10''] ''world.zip''))
          \<or> File \<noteq> File)"
    by (intro conjI disjI1)
  note c3 = store_archive_outcome [OF p1, THEN conjunct2, THEN mp, OF h]
  from p1 p2 h1 c1 h2 c2 f h3 h4 h5 h7 h6 c3 show ?thesis by (intro conjI)
qed

section \<open>Properties of the use cases\<close>

lemma ex_prepare:
  "prepare_daily_directory [''backups''] ex_today ex_disk =
     (Inr (Some [''backups'', ''2024-01-10'']),
      Dir [(''srv'', Dir [(''start.sh'', File)]), (''tmp'', Dir []),
           (''backups'', Dir [(''2024-01-10'', Dir [])])])"
proof -
  have m: "mkdir True True ex_disk [''backups''] =
             Inr (Dir [(''srv'', Dir [(''start.sh'', File)]), (''tmp'', Dir []),
                       (''backups'', Dir [])])"
    by (subst mkdir.simps) (simp add: os_mkdir_def ex_disk_def)
  have j: "joinpath [''backups''] (strftime ex_today) = [''backups'', ''2024-01-10'']"
    by (simp add: joinpath_def components_def ex_strftime)
  have h: "\<not> exists (Dir [(''srv'', Dir [(''start.sh'', File)]), (''tmp'', Dir []),
                       (''backups'', Dir [])]) (joinpath [''backups''] (strftime ex_today))"
    unfolding j by (simp add: exists_def)
  show ?thesis
    unfolding prepare_fresh [OF m h] j by simp
qed

lemma ex_create_zip:
  "create_zip ex_tmp [''srv'']
     (Dir [(''srv'', Dir [(''start.sh'', File)]), (''tmp'', Dir []),
           (''backups'', Dir [(''2024-01-10'', Dir [])])]) =
     (Inr ex_tmp,
      Dir [(''srv'', Dir [(''start.sh'', File)]),
           (''tmp'', Dir [(''minecraft-backend-0.zip'', File)]),
           (''backups'', Dir [(''2024-01-10'', Dir [])])])"
  by (simp add: create_zip_def ex_tmp_def exists_def is_dir_def)

lemma ex_store_archive:
  "store_archive ex_tmp [''backups'', ''2024-01-10''] ''world.zip''
     (Dir [(''srv'', Dir [(''start.sh'', File)]),
           (''tmp'', Dir [(''minecraft-backend-0.zip'', File)]),
           (''backups'', Dir [(''2024-01-10'', Dir [])])]) =
     (Inr [''backups'', ''2024-01-10'', ''world.zip''], ex_disk_backed_up)"
  by (simp add: store_archive_def ex_tmp_def exists_def is_dir_def joinpath_def components_def
        move_def ex_disk_backed_up_def)

lemma ex_toordinal: "toordinal ex_today = 738895"
  by (simp add: toordinal_def ex_today_def days_before_year_def days_before_month_def is_leap_def)

lemma ex_fromordinal: "fromordinal 738889 = \<lparr>year = 2024, month = 1, day = 4\<rparr>"
  by (simp add: fromordinal_def Let_def)

lemma ex_keep_from: "date_sub_days ex_today 6 = Inr \<lparr>year = 2024, month = 1, day = 4\<rparr>"
  by (simp add: date_sub_days_def ex_toordinal max_ordinal_def ex_fromordinal)

lemma decode_ascii: "b < 128 \<Longrightarrow> decode (b # bs) = b # decode bs"
  by (simp add: decode.simps(2) utf8_char_def)

lemma decode_three:
  "224 < b \<Longrightarrow> b \<le> 239 \<Longrightarrow> b \<noteq> 237 \<Longrightarrow> cont c1 \<Longrightarrow> cont c2 \<Longrightarrow>
     decode (b # c1 # c2 # bs) = (((b - 224) * 64 + (c1 - 128)) * 64 + (c2 - 128)) # decode bs"
  by (simp add: decode.simps(2) utf8_char_def cont_def)

lemma digit_of_ascii: "48 \<le> c \<Longrightarrow> c \<le> 57 \<Longrightarrow> digit_of c = Some (c - 48)"
  by (simp add: digit_of_def decimal_zeros_def)

lemma ex_strptime: "strptime ''2024-01-10'' = Some ex_today"
  by (simp add: strptime_def fsdecode_def decode_ascii digit_of_ascii parse_month_def
        parse_day_def valid_date_def days_in_month_def is_leap_def ex_today_def)

lemma ex_prune:
  "prune_older_than [''backups''] ex_today 7 (Some ex_today) ex_disk_backed_up =
     (Inr [], ex_disk_backed_up)"
proof -
  have l: "\<not> date_less ex_today \<lparr>year = 2024, month = 1, day = 4\<rparr>"
    by (simp add: date_less_def ex_today_def)
  from l show ?thesis
    by (simp add: prune_older_than_def ex_keep_from exists_def iterdir_def
          ex_disk_backed_up_def is_dir_def ex_strptime Let_def)
qed

lemma ex_execute_first_day:
  "ensure_daily_backup_execute ex_use_case ex_today ex_disk =
     (Inr True, ex_disk_backed_up,
      [PrepareDailyDirectory ex_today, CreateZip [''srv''],
       StoreArchive ex_tmp [''backups'', ''2024-01-10''] ''world.zip'',
       PruneOlderThan 7 ex_today])"
  by (simp add: ensure_daily_backup_execute_def ex_use_case_def zip_archive_service_def
        daily_backup_storage_service_def ex_prepare ex_create_zip ex_store_archive ex_prune)

lemma ex_execute_bad_root:
  "ensure_daily_backup_execute ex_use_case_bad_root ex_today ex_disk =
     (Inl BackupStorageError, ex_disk, [PrepareDailyDirectory ex_today])"
proof -
  have "mkdir True True ex_disk ex_script = Inl EEXIST"
    by (subst mkdir.simps) (simp add: os_mkdir_def ex_disk_def ex_script_def is_dir_def)
  then show ?thesis
    by (simp add: ensure_daily_backup_execute_def ex_use_case_bad_root_def ex_use_case_def
          daily_backup_storage_service_def prepare_daily_directory_def)
qed

lemma execute_no_new_directory:
  assumes "svc_prepare_daily_directory (backup_storage uc) today w = (Inr None, w1)"
  shows "ensure_daily_backup_execute uc today w = (Inr False, w1, [PrepareDailyDirectory today])"
  using assms by (simp add: ensure_daily_backup_execute_def)

lemma execute_True:
  assumes "fst (ensure_daily_backup_execute uc today w) = Inr True"
  shows "\<exists>destination_dir w1 archive_path w2 stored w3 removed w4.
           svc_prepare_daily_directory (backup_storage uc) today w =
             (Inr (Some destination_dir), w1)
         \<and> svc_create_zip (archive_service uc) (server_root uc) w1 = (Inr archive_path, w2)
         \<and> svc_store_archive (backup_storage uc) archive_path destination_dir
              (archive_filename uc) w2 = (Inr stored, w3)
         \<and> svc_prune_older_than (backup_storage uc) (retention_days uc) (Some today) w3 =
              (Inr removed, w4)
         \<and> ensure_daily_backup_execute uc today w =
              (Inr True, w4,
               [PrepareDailyDirectory today, CreateZip (server_root uc),
                StoreArchive archive_path destination_dir (archive_filename uc),
                PruneOlderThan (retention_days uc) today])"
proof -
  from assms [unfolded ensure_daily_backup_execute_def]
  obtain destination_dir w1 archive_path w2 stored w3 removed w4 where
    p: "svc_prepare_daily_directory (backup_storage uc) today w =
          (Inr (Some destination_dir), w1)"
    and z: "svc_create_zip (archive_service uc) (server_root uc) w1 = (Inr archive_path, w2)"
    and s: "svc_store_archive (backup_storage uc) archive_path destination_dir
              (archive_filename uc) w2 = (Inr stored, w3)"
    and r: "svc_prune_older_than (backup_storage uc) (retention_days uc) (Some today) w3 =
              (Inr removed, w4)"
    by (auto split: prod.split_asm sum.split_asm option.split_asm)
  from p z s r have
    "ensure_daily_backup_execute uc today w =
       (Inr True, w4,
        [PrepareDailyDirectory today, CreateZip (server_root uc),
         StoreArchive archive_path destination_dir (archive_filename uc),
         PruneOlderThan (retention_days uc) today])"
    by (simp add: ensure_daily_backup_execute_def)
  with p z s r show ?thesis by blast
qed

lemma execute_work_needs_fresh_directory:
  assumes "snd (snd (ensure_daily_backup_execute uc today w)) \<noteq> [PrepareDailyDirectory today]"
  shows "\<exists>destination_dir w1.
           svc_prepare_daily_directory (backup_storage uc) today w =
             (Inr (Some destination_dir), w1)"
  using assms
  by (simp add: ensure_daily_backup_execute_def split: prod.splits sum.splits option.splits)

text \<open>
  C2. When the directory of the day exists, the use case over the filesystem storage
  service returns \<open>False\<close>, leaves the filesystem as it is and calls nothing but
  \<open>prepare_daily_directory\<close>; so it does over any storage service whose
  \<open>prepare_daily_directory\<close> returns \<open>None\<close>. Any further call is made only when
  \<open>prepare_daily_directory\<close> returned a path, and the result is \<open>True\<close> only when
  the archive was created, stored in that directory and the old directories were
  pruned, in this order.
\<close>

theorem ensure_daily_backup_once_a_day:
  "(is_dir fs (joinpath base_directory (strftime today)) \<longrightarrow>
      ensure_daily_backup_execute
        \<lparr>archive_service = zipper,
         backup_storage = daily_backup_storage_service base_directory clock,
         server_root = source_root, retention_days = days, archive_filename = filename\<rparr> today fs =
        (Inr False, fs, [PrepareDailyDirectory today]))
   \<and> (svc_prepare_daily_directory (backup_storage uc) today w = (Inr None, w1) \<longrightarrow>
        ensure_daily_backup_execute uc today w = (Inr False, w1, [PrepareDailyDirectory today]))
   \<and> (snd (snd (ensure_daily_backup_execute uc today w)) \<noteq> [PrepareDailyDirectory today] \<longrightarrow>
        (\<exists>destination_dir w1.
           svc_prepare_daily_directory (backup_storage uc) today w =
             (Inr (Some destination_dir), w1)))
   \<and> (fst (ensure_daily_backup_execute uc today w) = Inr True \<longrightarrow>
        (\<exists>destination_dir w1 archive_path w2 stored w3 removed w4.
           svc_prepare_daily_directory (backup_storage uc) today w =
             (Inr (Some destination_dir), w1)
         \<and> svc_create_zip (archive_service uc) (server_root uc) w1 = (Inr archive_path, w2)
         \<and> svc_store_archive (backup_storage uc) archive_path destination_dir
              (archive_filename uc) w2 = (Inr stored, w3)
         \<and> svc_prune_older_than (backup_storage uc) (retention_days uc) (Some today) w3 =
              (Inr removed, w4)
         \<and> ensure_daily_backup_execute uc today w =
              (Inr True, w4,
               [PrepareDailyDirectory today, CreateZip (server_root uc),
                StoreArchive archive_path destination_dir (archive_filename uc),
                PruneOlderThan (retention_days uc) today])))"
proof (intro conjI impI)
  assume "is_dir fs (joinpath base_directory (strftime today))"
  then have "prepare_daily_directory base_directory today fs = (Inr None, fs)"
    by (rule prepare_existing)
  then show "ensure_daily_backup_execute
        \<lparr>archive_service = zipper,
         backup_storage = daily_backup_storage_service base_directory clock,
         server_root = source_root, retention_days = days, archive_filename = filename\<rparr> today fs =
        (Inr False, fs, [PrepareDailyDirectory today])"
    by (simp add: ensure_daily_backup_execute_def daily_backup_storage_service_def)
next
  assume "svc_prepare_daily_directory (backup_storage uc) today w = (Inr None, w1)"
  then show "ensure_daily_backup_execute uc today w =
               (Inr False, w1, [PrepareDailyDirectory today])"
    by (rule execute_no_new_directory)
next
  assume "snd (snd (ensure_daily_backup_execute uc today w)) \<noteq> [PrepareDailyDirectory today]"
  then show "\<exists>destination_dir w1.
           svc_prepare_daily_directory (backup_storage uc) today w =
             (Inr (Some destination_dir), w1)"
    by (rule execute_work_needs_fresh_directory)
next
  assume "fst (ensure_daily_backup_execute uc today w) = Inr True"
  then show "\<exists>destination_dir w1 archive_path w2 stored w3 removed w4.
           svc_prepare_daily_directory (backup_storage uc) today w =
             (Inr (Some destination_dir), w1)
         \<and> svc_create_zip (archive_service uc) (server_root uc) w1 = (Inr archive_path, w2)
         \<and> svc_store_archive (backup_storage uc) archive_path destination_dir
              (archive_filename uc) w2 = (Inr stored, w3)
         \<and> svc_prune_older_than (backup_storage uc) (retention_days uc) (Some today) w3 =
              (Inr removed, w4)
         \<and> ensure_daily_backup_execute uc today w =
              (Inr True, w4,
               [PrepareDailyDirectory today, CreateZip (server_root uc),
                StoreArchive archive_path destination_dir (archive_filename uc),
                PruneOlderThan (retention_days uc) today])"
    by (rule execute_True)
qed

theorem ensure_daily_backup_once_a_day_witness:
  "is_dir ex_disk_backed_up (joinpath [''backups''] (strftime ex_today))
   \<and> ensure_daily_backup_execute ex_use_case ex_today ex_disk_backed_up =
       (Inr False, ex_disk_backed_up, [PrepareDailyDirectory ex_today])
   \<and> svc_prepare_daily_directory (backup_storage ex_use_case) ex_today ex_disk_backed_up =
       (Inr None, ex_disk_backed_up)
   \<and> fst (ensure_daily_backup_execute ex_use_case ex_today ex_disk) = Inr True
   \<and> snd (snd (ensure_daily_backup_execute ex_use_case ex_today ex_disk)) \<noteq>
       [PrepareDailyDirectory ex_today]
   \<and> (\<exists>destination_dir w1.
         svc_prepare_daily_directory (backup_storage ex_use_case) ex_today ex_disk =
           (Inr (Some destination_dir), w1))
   \<and> (\<exists>archive_path destination_dir.
         snd (snd (ensure_daily_backup_execute ex_use_case ex_today ex_disk)) =
           [PrepareDailyDirectory ex_today, CreateZip (server_root ex_use_case),
            StoreArchive archive_path destination_dir (archive_filename ex_use_case),
            PruneOlderThan (retention_days ex_use_case) ex_today])"
proof -
  note th = ensure_daily_backup_once_a_day
    [where fs = ex_disk_backed_up and base_directory = "[''backups'']" and today = ex_today
       and zipper = "zip_archive_service ex_tmp" and clock = ex_today and source_root = "[''srv'']"
       and days = 7 and filename = "''world.zip''" and uc = ex_use_case and w = ex_disk,
     folded ex_use_case_def]
  note th2 = ensure_daily_backup_once_a_day
    [where uc = ex_use_case and today = ex_today and w = ex_disk_backed_up
       and ?w1.0 = ex_disk_backed_up]
  have h1: "is_dir ex_disk_backed_up (joinpath [''backups''] (strftime ex_today))"
    by (simp add: joinpath_def components_def ex_strftime is_dir_def ex_disk_backed_up_def)
  have c1: "ensure_daily_backup_execute ex_use_case ex_today ex_disk_backed_up =
       (Inr False, ex_disk_backed_up, [PrepareDailyDirectory ex_today])"
    using th [THEN conjunct1] h1 by (rule mp)
  have h2: "svc_prepare_daily_directory (backup_storage ex_use_case) ex_today
              ex_disk_backed_up = (Inr None, ex_disk_backed_up)"
    using prepare_existing [OF h1]
    by (simp add: ex_use_case_def daily_backup_storage_service_def)
  have c2: "ensure_daily_backup_execute ex_use_case ex_today ex_disk_backed_up =
       (Inr False, ex_disk_backed_up, [PrepareDailyDirectory ex_today])"
    using th2 [THEN conjunct2, THEN conjunct1] h2 by (rule mp)
  have h3: "snd (snd (ensure_daily_backup_execute ex_use_case ex_today ex_disk)) \<noteq>
       [PrepareDailyDirectory ex_today]"
    by (simp add: ex_execute_first_day)
  have c3: "\<exists>destination_dir w1.
         svc_prepare_daily_directory (backup_storage ex_use_case) ex_today ex_disk =
           (Inr (Some destination_dir), w1)"
    using th [THEN conjunct2, THEN conjunct2, THEN conjunct1] h3 by (rule mp)
  have h4: "fst (ensure_daily_backup_execute ex_use_case ex_today ex_disk) = Inr True"
    by (simp add: ex_execute_first_day)
  have c4: "\<exists>archive_path destination_dir.
         snd (snd (ensure_daily_backup_execute ex_use_case ex_today ex_disk)) =
           [PrepareDailyDirectory ex_today, CreateZip (server_root ex_use_case),
            StoreArchive archive_path destination_dir (archive_filename ex_use_case),
            PruneOlderThan (retention_days ex_use_case) ex_today]"
    using th [THEN conjunct2, THEN conjunct2, THEN conjunct2, THEN mp, OF h4]
    by (metis snd_conv)
  from h1 c2 h2 h4 h3 c3 c4 show ?thesis by (intro conjI)
qed

lemma ex_start:
  "start_server_execute False ex_spawn ex_script (alive_at 100)
     \<lparr>files = ex_disk_backed_up, server = init 0\<rparr> =
     (Inr (), \<lparr>files = ex_disk_backed_up,
               server = \<lparr>process = Some 4242, state = STARTING, state_since = 100\<rparr>\<rparr>)"
  by (simp add: start_server_execute_def start_def ex_disk_backed_up_def ex_script_def
        exists_def init_def alive_at_def ex_spawn_def set_state_locked_def Let_def)

lemma ex_backup_first_day:
  "ensure_daily_backup ex_use_case ex_today \<lparr>files = ex_disk, server = init 0\<rparr> =
     (Inr True, \<lparr>files = ex_disk_backed_up, server = init 0\<rparr>)"
  by (simp add: ensure_daily_backup_def ex_execute_first_day)

lemma ex_backup_bad_root:
  "ensure_daily_backup ex_use_case_bad_root ex_today \<lparr>files = ex_disk, server = init 0\<rparr> =
     (Inl BackupStorageError, \<lparr>files = ex_disk, server = init 0\<rparr>)"
  by (simp add: ensure_daily_backup_def ex_execute_bad_root)

text \<open>
  C9. Without a backup use case the workflow runs the start use case and returns
  \<open>False\<close>. With one, the backup runs first; when it returns a flag, the start use
  case runs on the world the backup left, whatever the flag is, and the workflow
  returns the flag; an error of the start use case is the result of the workflow, and
  so is an error of the backup use case, after which the start use case is not run.
\<close>

theorem start_server_workflow_order:
  "start_server_workflow_execute start_use_case None w =
     (case start_use_case w of
        (Inl e, w2) \<Rightarrow> (Inl e, w2)
      | (Inr u, w2) \<Rightarrow> (Inr False, w2))
   \<and> (backup_use_case w = (Inr created, w1) \<longrightarrow>
        start_server_workflow_execute start_use_case (Some backup_use_case) w =
          (case start_use_case w1 of
             (Inl e, w2) \<Rightarrow> (Inl e, w2)
           | (Inr u, w2) \<Rightarrow> (Inr created, w2)))
   \<and> (backup_use_case w = (Inl e, w1) \<longrightarrow>
        start_server_workflow_execute start_use_case (Some backup_use_case) w = (Inl e, w1))"
  by (simp add: start_server_workflow_execute_def)

theorem start_server_workflow_order_witness:
  "ensure_daily_backup ex_use_case ex_today \<lparr>files = ex_disk, server = init 0\<rparr> =
     (Inr True, \<lparr>files = ex_disk_backed_up, server = init 0\<rparr>)
   \<and> start_server_workflow_execute
         (start_server_execute False ex_spawn ex_script (alive_at 100))
         (Some (ensure_daily_backup ex_use_case ex_today))
         \<lparr>files = ex_disk, server = init 0\<rparr> =
       (Inr True, \<lparr>files = ex_disk_backed_up,
                   server = \<lparr>process = Some 4242, state = STARTING, state_since = 100\<rparr>\<rparr>)
   \<and> ensure_daily_backup ex_use_case_bad_root ex_today \<lparr>files = ex_disk, server = init 0\<rparr> =
       (Inl BackupStorageError, \<lparr>files = ex_disk, server = init 0\<rparr>)
   \<and> start_server_workflow_execute
         (start_server_execute False ex_spawn ex_script (alive_at 100))
         (Some (ensure_daily_backup ex_use_case_bad_root ex_today))
         \<lparr>files = ex_disk, server = init 0\<rparr> =
       (Inl BackupStorageError, \<lparr>files = ex_disk, server = init 0\<rparr>)"
proof -
  note a = start_server_workflow_order
    [where start_use_case = "start_server_execute False ex_spawn ex_script (alive_at 100)"
       and backup_use_case = "ensure_daily_backup ex_use_case ex_today"
       and w = "\<lparr>files = ex_disk, server = init 0\<rparr>" and created = True
       and ?w1.0 = "\<lparr>files = ex_disk_backed_up, server = init 0\<rparr>",
     THEN conjunct2, THEN conjunct1, THEN mp, OF ex_backup_first_day]
  note b = start_server_workflow_order
    [where start_use_case = "start_server_execute False ex_spawn ex_script (alive_at 100)"
       and backup_use_case = "ensure_daily_backup ex_use_case_bad_root ex_today"
       and w = "\<lparr>files = ex_disk, server = init 0\<rparr>" and e = BackupStorageError
       and ?w1.0 = "\<lparr>files = ex_disk, server = init 0\<rparr>",
     THEN conjunct2, THEN conjunct2, THEN mp, OF ex_backup_bad_root]
  have c: "start_server_workflow_execute
         (start_server_execute False ex_spawn ex_script (alive_at 100))
         (Some (ensure_daily_backup ex_use_case ex_today))
         \<lparr>files = ex_disk, server = init 0\<rparr> =
       (Inr True, \<lparr>files = ex_disk_backed_up,
                   server = \<lparr>process = Some 4242, state = STARTING, state_since = 100\<rparr>\<rparr>)"
    unfolding a ex_start by simp
  from ex_backup_first_day c ex_backup_bad_root b show ?thesis by (intro conjI)
qed

section \<open>Properties of pruning\<close>

lemma lookup_del_sibling:
  "lookup (del fs (b @ [x])) (b @ [n]) = (if n = x then None else lookup fs (b @ [n]))"
proof (cases "n = x")
  case True
  then show ?thesis using lookup_del_under [of "b @ [x]" fs "[]"] by simp
next
  case False
  then show ?thesis by (simp add: lookup_del_other)
qed

lemma is_dir_del_sibling:
  "is_dir (del fs (b @ [x])) (b @ [n]) = (n \<noteq> x \<and> is_dir fs (b @ [n]))"
  by (simp add: is_dir_def lookup_del_sibling)

lemma lookup_del_outside:
  assumes "\<not> prefix b q" and "\<not> prefix q b"
  shows "lookup (del fs (b @ [x])) q = lookup fs q"
proof (rule lookup_del_other)
  show "\<not> prefix (b @ [x]) q" using assms(1) by (auto simp: prefix_def)
  show "\<not> prefix q (b @ [x])" using assms by (auto simp: prefix_snoc)
qed

lemma is_dir_del_parent: "is_dir (del fs (b @ [x])) b = is_dir fs b"
  by (rule is_dir_del) simp

lemma prune_loop_skip:
  assumes "\<not> (is_dir fs (b @ [name]) \<and> expired k name)"
  shows "prune_loop b k (name # names) fs removed = prune_loop b k names fs removed"
  using assms by (auto simp: expired_def Let_def split: option.splits)

lemma prune_loop_remove:
  assumes "is_dir fs (b @ [name])" and "expired k name"
  shows "prune_loop b k (name # names) fs removed =
           prune_loop b k names (del fs (b @ [name])) (removed @ [b @ [name]])"
  using assms
  by (auto simp: expired_def Let_def rmtree_def is_dir_def split: option.splits node.splits)

lemma prune_loop_spec:
  "\<exists>removed' fs'.
     prune_loop b k names fs removed = (Inr (removed @ removed'), fs')
     \<and> set removed' = (\<lambda>n. b @ [n]) ` {n \<in> set names. is_dir fs (b @ [n]) \<and> expired k n}
     \<and> distinct removed'
     \<and> (\<forall>n. lookup fs' (b @ [n]) =
              (if n \<in> set names \<and> is_dir fs (b @ [n]) \<and> expired k n then None
               else lookup fs (b @ [n])))
     \<and> (\<forall>q. \<not> prefix b q \<and> \<not> prefix q b \<longrightarrow> lookup fs' q = lookup fs q)
     \<and> is_dir fs' b = is_dir fs b"
proof (induction names arbitrary: fs removed)
  case Nil
  then show ?case by simp
next
  case (Cons name names)
  show ?case
  proof (cases "is_dir fs (b @ [name]) \<and> expired k name")
    case False
    have eq: "{n \<in> set (name # names). is_dir fs (b @ [n]) \<and> expired k n} =
              {n \<in> set names. is_dir fs (b @ [n]) \<and> expired k n}"
      using False by auto
    have mem: "(n \<in> set (name # names) \<and> is_dir fs (b @ [n]) \<and> expired k n) =
               (n \<in> set names \<and> is_dir fs (b @ [n]) \<and> expired k n)" for n
      using False by auto
    show ?thesis
      unfolding prune_loop_skip [OF False] eq mem by (rule Cons.IH)
  next
    case True
    let ?fs1 = "del fs (b @ [name])"
    from Cons.IH [of ?fs1 "removed @ [b @ [name]]"]
    obtain r1 fs' where
      run: "prune_loop b k names ?fs1 (removed @ [b @ [name]]) =
              (Inr ((removed @ [b @ [name]]) @ r1), fs')"
      and s: "set r1 = (\<lambda>n. b @ [n]) ` {n \<in> set names. is_dir ?fs1 (b @ [n]) \<and> expired k n}"
      and d: "distinct r1"
      and l: "\<forall>n. lookup fs' (b @ [n]) =
              (if n \<in> set names \<and> is_dir ?fs1 (b @ [n]) \<and> expired k n then None
               else lookup ?fs1 (b @ [n]))"
      and o: "\<forall>q. \<not> prefix b q \<and> \<not> prefix q b \<longrightarrow> lookup fs' q = lookup ?fs1 q"
      and p: "is_dir fs' b = is_dir ?fs1 b"
      by blast
    have run': "prune_loop b k (name # names) fs removed =
                  (Inr (removed @ (b @ [name]) # r1), fs')"
      unfolding prune_loop_remove [OF True [THEN conjunct1] True [THEN conjunct2]]
      using run by simp
    have s': "set ((b @ [name]) # r1) =
                (\<lambda>n. b @ [n]) ` {n \<in> set (name # names). is_dir fs (b @ [n]) \<and> expired k n}"
      using True by (auto simp: s is_dir_del_sibling)
    have d': "distinct ((b @ [name]) # r1)"
      using d by (auto simp: s is_dir_del_sibling)
    have l': "\<forall>n. lookup fs' (b @ [n]) =
              (if n \<in> set (name # names) \<and> is_dir fs (b @ [n]) \<and> expired k n then None
               else lookup fs (b @ [n]))"
      using True l by (auto simp: is_dir_del_sibling lookup_del_sibling)
    have o': "\<forall>q. \<not> prefix b q \<and> \<not> prefix q b \<longrightarrow> lookup fs' q = lookup fs q"
      using o by (simp add: lookup_del_outside)
    have p': "is_dir fs' b = is_dir fs b"
      using p by (simp add: is_dir_del_parent)
    from run' s' d' l' o' p' show ?thesis by blast
  qed
qed

lemma is_dir_child_listed:
  assumes "is_dir fs (b @ [n])" and "lookup fs b = Some (Dir es)"
  shows "n \<in> set (map fst es)"
proof -
  from assms obtain c where "map_of es n = Some c"
    by (auto simp: is_dir_def lookup_snoc split: option.splits)
  then have "(n, c) \<in> set es" by (rule map_of_SomeD)
  then show ?thesis by force
qed

lemma no_child_of_missing:
  assumes "\<not> exists fs b"
  shows "\<not> is_dir fs (b @ [n])"
  using assms exists_snoc_is_dir [of fs b n] is_dir_exists [of fs b] is_dir_exists [of fs "b @ [n]"]
  by blast

text \<open>
  C3, as claimed, fails: with 1000000 days of retention and the reference date
  2024-01-10 the first date to keep would lie before the year 1, the subtraction
  raises \<open>OverflowError\<close> and \<open>prune_older_than\<close> returns no list.
\<close>

theorem prune_older_than_overflow:
  "prune_older_than [''backups''] ex_today 1000000 (Some ex_today) ex_backups =
     (Inl OverflowError, ex_backups)"
  by (simp add: prune_older_than_def date_sub_days_def ex_toordinal max_ordinal_def)

text \<open>
  C3, amended. Let the retention be coerced to at least one day and let the first date
  to keep, that many days less one before the reference date, be a date; let the
  backup root not be a regular file. Then, in this filesystem where the removal of a
  directory cannot fail, \<open>prune_older_than\<close> returns a list without repetitions of
  exactly the directories directly under the backup root whose names are expired,
  that is, parse with \<open>strptime\<close> as a date before the first date to keep; these are
  gone afterwards and every other entry of the backup root is as before, as is every
  path outside the backup root. When the backup root does not exist the list is empty
  and the filesystem is as before.
\<close>

theorem prune_older_than_removes_expired:
  assumes "date_sub_days (case reference_date of Some d \<Rightarrow> d | None \<Rightarrow> today)
             ((if days \<le> 0 then 1 else days) - 1) = Inr keep_from"
    and "lookup fs base_directory \<noteq> Some File"
  shows "\<exists>removed fs'.
           prune_older_than base_directory today days reference_date fs =
             (Inr removed, fs')
         \<and> set removed =
               (\<lambda>n. base_directory @ [n]) `
                 {n. is_dir fs (base_directory @ [n]) \<and> expired keep_from n}
         \<and> distinct removed
         \<and> (\<forall>n. lookup fs' (base_directory @ [n]) =
                  (if is_dir fs (base_directory @ [n]) \<and> expired keep_from n then None
                   else lookup fs (base_directory @ [n])))
         \<and> (\<forall>q. \<not> prefix base_directory q \<and> \<not> prefix q base_directory \<longrightarrow>
                  lookup fs' q = lookup fs q)
         \<and> (\<not> exists fs base_directory \<longrightarrow> removed = [] \<and> fs' = fs)"
proof (cases "exists fs base_directory")
  case False
  then have n: "\<not> is_dir fs (base_directory @ [n])" for n
    by (rule no_child_of_missing)
  have "prune_older_than base_directory today days reference_date fs = (Inr [], fs)"
    using assms(1) False by (simp add: prune_older_than_def Let_def)
  then show ?thesis using n by simp
next
  case True
  with assms(2) obtain es where es: "lookup fs base_directory = Some (Dir es)"
    by (cases "lookup fs base_directory") (auto simp: exists_def intro: node.exhaust)
  have run: "prune_older_than base_directory today days reference_date fs =
               prune_loop base_directory keep_from (map fst es) fs []"
    using assms(1) True es by (simp add: prune_older_than_def Let_def iterdir_def)
  have listed: "(n \<in> set (map fst es) \<and> is_dir fs (base_directory @ [n])
                  \<and> expired keep_from n) =
                (is_dir fs (base_directory @ [n]) \<and> expired keep_from n)" for n
    using is_dir_child_listed [OF _ es, of n] by blast
  have sets: "{n \<in> set (map fst es). is_dir fs (base_directory @ [n]) \<and> expired keep_from n} =
              {n. is_dir fs (base_directory @ [n]) \<and> expired keep_from n}"
    using listed by blast
  from prune_loop_spec [of base_directory keep_from "map fst es" fs "[]"]
  obtain removed fs' where
    r: "prune_loop base_directory keep_from (map fst es) fs [] = (Inr removed, fs')"
    and s: "set removed =
              (\<lambda>n. base_directory @ [n]) `
                {n \<in> set (map fst es). is_dir fs (base_directory @ [n]) \<and> expired keep_from n}"
    and d: "distinct removed"
    and l: "\<forall>n. lookup fs' (base_directory @ [n]) =
              (if n \<in> set (map fst es) \<and> is_dir fs (base_directory @ [n])
                  \<and> expired keep_from n then None
               else lookup fs (base_directory @ [n]))"
    and o: "\<forall>q. \<not> prefix base_directory q \<and> \<not> prefix q base_directory \<longrightarrow>
              lookup fs' q = lookup fs q"
    by auto
  from r have r': "prune_older_than base_directory today days reference_date fs =
                     (Inr removed, fs')"
    unfolding run .
  from s have s': "set removed =
              (\<lambda>n. base_directory @ [n]) `
                {n. is_dir fs (base_directory @ [n]) \<and> expired keep_from n}"
    unfolding sets .
  from l have l': "\<forall>n. lookup fs' (base_directory @ [n]) =
                  (if is_dir fs (base_directory @ [n]) \<and> expired keep_from n then None
                   else lookup fs (base_directory @ [n]))"
    unfolding listed .
  from r' s' d l' o True show ?thesis by blast
qed

lemma ex_fsdecode:
  "fsdecode ''2024-01-02'' = [50, 48, 50, 52, 45, 48, 49, 45, 48, 50]"
  "fsdecode ''2024-01-03'' = [50, 48, 50, 52, 45, 48, 49, 45, 48, 51]"
  "fsdecode ''2024-01-04'' = [50, 48, 50, 52, 45, 48, 49, 45, 48, 52]"
  "fsdecode ''notes'' = [110, 111, 116, 101, 115]"
  "fsdecode ex_fullwidth_name = [65298, 65296, 65298, 65300, 45, 48, 49, 45, 48, 49]"
  by (simp_all add: fsdecode_def ex_fullwidth_name_def decode_ascii decode_three cont_def)

lemma ex_digits:
  "digit_of 65296 = Some 0" "digit_of 65298 = Some 2" "digit_of 65300 = Some 4"
  "digit_of 110 = None"
  by (simp_all add: digit_of_def decimal_zeros_def)

lemma ex_strptime_names:
  "strptime ''2024-01-02'' = Some \<lparr>year = 2024, month = 1, day = 2\<rparr>"
  "strptime ''2024-01-03'' = Some \<lparr>year = 2024, month = 1, day = 3\<rparr>"
  "strptime ''2024-01-04'' = Some \<lparr>year = 2024, month = 1, day = 4\<rparr>"
  "strptime ''notes'' = None"
  "strptime ex_fullwidth_name = Some \<lparr>year = 2024, month = 1, day = 1\<rparr>"
  by (simp_all add: strptime_def ex_fsdecode ex_digits digit_of_ascii parse_month_def
        parse_day_def valid_date_def days_in_month_def is_leap_def)

lemma ex_expired:
  "expired \<lparr>year = 2024, month = 1, day = 4\<rparr> ''2024-01-02''"
  "expired \<lparr>year = 2024, month = 1, day = 4\<rparr> ''2024-01-03''"
  "\<not> expired \<lparr>year = 2024, month = 1, day = 4\<rparr> ''2024-01-04''"
  "\<not> expired \<lparr>year = 2024, month = 1, day = 4\<rparr> ''2024-01-10''"
  "\<not> expired \<lparr>year = 2024, month = 1, day = 4\<rparr> ''notes''"
  "expired \<lparr>year = 2024, month = 1, day = 4\<rparr> ex_fullwidth_name"
  by (simp_all add: expired_def ex_strptime_names ex_strptime date_less_def ex_today_def)

lemma ex_names_differ:
  "ex_fullwidth_name \<noteq> ''2024-01-02''" "ex_fullwidth_name \<noteq> ''2024-01-03''"
  "ex_fullwidth_name \<noteq> ''2024-01-04''" "ex_fullwidth_name \<noteq> ''2024-01-10''"
  "ex_fullwidth_name \<noteq> ''notes''" "ex_fullwidth_name \<noteq> ''2023-12-31''"
  "''2024-01-02'' \<noteq> ex_fullwidth_name" "''2024-01-03'' \<noteq> ex_fullwidth_name"
  "''2024-01-04'' \<noteq> ex_fullwidth_name" "''2024-01-10'' \<noteq> ex_fullwidth_name"
  "''notes'' \<noteq> ex_fullwidth_name" "''2023-12-31'' \<noteq> ex_fullwidth_name"
  by (simp_all add: ex_fullwidth_name_def)

lemma ex_prune_backups:
  "prune_older_than [''backups''] ex_today 7 (Some ex_today) ex_backups =
     (Inr [[''backups'', ''2024-01-02''], [''backups'', ''2024-01-03''],
           [''backups'', ex_fullwidth_name]], ex_backups_pruned)"
proof -
  have l: "prune_loop [''backups''] \<lparr>year = 2024, month = 1, day = 4\<rparr>
             [''2024-01-02'', ''2024-01-03'', ''2024-01-04'', ''2024-01-10'', ''notes'',
              ''2023-12-31'', ex_fullwidth_name] ex_backups [] =
           (Inr [[''backups'', ''2024-01-02''], [''backups'', ''2024-01-03''],
                 [''backups'', ex_fullwidth_name]],
            ex_backups_pruned)"
    by (simp add: ex_backups_def ex_backups_pruned_def is_dir_def rmtree_def Let_def
          ex_strptime_names ex_strptime ex_names_differ date_less_def ex_today_def)
  have i: "iterdir ex_backups [''backups''] =
             Inr [''2024-01-02'', ''2024-01-03'', ''2024-01-04'', ''2024-01-10'', ''notes'',
                  ''2023-12-31'', ex_fullwidth_name]"
    by (simp add: iterdir_def ex_backups_def)
  have e: "exists ex_backups [''backups'']"
    by (simp add: exists_def ex_backups_def)
  from l show ?thesis
    by (simp add: prune_older_than_def ex_keep_from e i)
qed

theorem prune_older_than_removes_expired_witness:
  "date_sub_days (case Some ex_today of Some d \<Rightarrow> d | None \<Rightarrow> ex_today)
     ((if (7::int) \<le> 0 then 1 else 7) - 1) = Inr \<lparr>year = 2024, month = 1, day = 4\<rparr>
   \<and> lookup ex_backups [''backups''] \<noteq> Some File
   \<and> prune_older_than [''backups''] ex_today 7 (Some ex_today) ex_backups =
       (Inr [[''backups'', ''2024-01-02''], [''backups'', ''2024-01-03''],
             [''backups'', ex_fullwidth_name]], ex_backups_pruned)
   \<and> expired \<lparr>year = 2024, month = 1, day = 4\<rparr> ''2024-01-03''
   \<and> \<not> expired \<lparr>year = 2024, month = 1, day = 4\<rparr> ''2024-01-04''
   \<and> \<not> expired \<lparr>year = 2024, month = 1, day = 4\<rparr> ''2024-01-10''
   \<and> expired \<lparr>year = 2024, month = 1, day = 4\<rparr> ex_fullwidth_name
   \<and> (\<exists>removed fs'.
         prune_older_than [''backups''] ex_today 7 (Some ex_today) ex_backups =
           (Inr removed, fs')
         \<and> set removed =
             (\<lambda>n. [''backups''] @ [n]) `
               {n. is_dir ex_backups ([''backups''] @ [n])
                   \<and> expired \<lparr>year = 2024, month = 1, day = 4\<rparr> n}
         \<and> lookup fs' ([''backups''] @ [''2024-01-03'']) = None
         \<and> lookup fs' ([''backups''] @ [''2024-01-04'']) =
             lookup ex_backups ([''backups''] @ [''2024-01-04''])
         \<and> lookup fs' ([''backups''] @ [ex_fullwidth_name]) = None)"
proof -
  have h1: "date_sub_days (case Some ex_today of Some d \<Rightarrow> d | None \<Rightarrow> ex_today)
     ((if (7::int) \<le> 0 then 1 else 7) - 1) = Inr \<lparr>year = 2024, month = 1, day = 4\<rparr>"
    by (simp add: ex_keep_from)
  have h2: "lookup ex_backups [''backups''] \<noteq> Some File"
    by (simp add: ex_backups_def)
  have d3: "is_dir ex_backups ([''backups''] @ [''2024-01-03''])"
    by (simp add: is_dir_def ex_backups_def)
  have df: "is_dir ex_backups ([''backups''] @ [ex_fullwidth_name])"
    by (simp add: is_dir_def ex_backups_def ex_names_differ)
  from prune_older_than_removes_expired [OF h1 h2]
  obtain removed fs' where
    r: "prune_older_than [''backups''] ex_today 7 (Some ex_today) ex_backups =
          (Inr removed, fs')"
    and s: "set removed =
             (\<lambda>n. [''backups''] @ [n]) `
               {n. is_dir ex_backups ([''backups''] @ [n])
                   \<and> expired \<lparr>year = 2024, month = 1, day = 4\<rparr> n}"
    and l: "\<forall>n. lookup fs' ([''backups''] @ [n]) =
              (if is_dir ex_backups ([''backups''] @ [n])
                  \<and> expired \<lparr>year = 2024, month = 1, day = 4\<rparr> n then None
               else lookup ex_backups ([''backups''] @ [n]))"
    by blast
  have l3: "lookup fs' ([''backups''] @ [''2024-01-03'']) = None"
    using l [rule_format, of "''2024-01-03''"] d3 ex_expired(2) by presburger
  have l4: "lookup fs' ([''backups''] @ [''2024-01-04'']) =
             lookup ex_backups ([''backups''] @ [''2024-01-04''])"
    using l [rule_format, of "''2024-01-04''"] ex_expired(3) by presburger
  have lf: "lookup fs' ([''backups''] @ [ex_fullwidth_name]) = None"
    using l [rule_format, of ex_fullwidth_name] df ex_expired(6) by presburger
  from r s l3 l4 lf have c: "\<exists>removed fs'.
         prune_older_than [''backups''] ex_today 7 (Some ex_today) ex_backups =
           (Inr removed, fs')
         \<and> set removed =
             (\<lambda>n. [''backups''] @ [n]) `
               {n. is_dir ex_backups ([''backups''] @ [n])
                   \<and> expired \<lparr>year = 2024, month = 1, day = 4\<rparr> n}
         \<and> lookup fs' ([''backups''] @ [''2024-01-03'']) = None
         \<and> lookup fs' ([''backups''] @ [''2024-01-04'']) =
             lookup ex_backups ([''backups''] @ [''2024-01-04''])
         \<and> lookup fs' ([''backups''] @ [ex_fullwidth_name]) = None"
    by blast
  from h1 h2 ex_prune_backups ex_expired(2) ex_expired(3) ex_expired(4) ex_expired(6) c
  show ?thesis by (intro conjI)
qed

end
